theory Spec2Isabelle
  imports Main
begin

section \<open>Good-sections results of nilmtk: data model\<close>

text \<open>
  The module \<^verbatim>\<open>nilmtk/stats/goodsectionsresults.py\<close> accumulates, chunk by chunk, the
  good sections that a detector found, merges them across chunk boundaries
  (\<^verbatim>\<open>combined\<close>) and converts the accumulated table to and from a flat cache table.

  Timestamps and time differences are integers (a count of time units); the maximum
  sample period is a difference of the same unit.
\<close>

type_synonym time = int

text \<open>The exceptions that the modelled code can raise.\<close>

datatype error = IndexError | AssertionError | ValueError | NameError

text \<open>
  A \<^verbatim>\<open>TimeFrame\<close> object: \<^verbatim>\<open>start\<close> and \<^verbatim>\<open>end\<close> are a timestamp or \<^verbatim>\<open>None\<close>,
  \<^verbatim>\<open>include_end\<close> is false unless set.
\<close>

record timeframe =
  tf_start :: "time option"
  tf_end :: "time option"
  include_end :: bool

text \<open>
  Modelled from the spec: the class \<^verbatim>\<open>TimeFrame\<close> of \<^verbatim>\<open>nilmtk.timeframe\<close> is not part
  of the sources at hand. Its two property setters refuse a bound that would put the end
  before the start ("if both bounds are set, start <= end; assigning an end that would
  violate this against the current start fails with a ValueError-class error").
  Assigning \<^verbatim>\<open>None\<close> always succeeds.
\<close>

definition set_end :: "timeframe \<Rightarrow> time option \<Rightarrow> error + timeframe" where
  "set_end tf new_end =
     (case new_end of
        None \<Rightarrow> Inr (tf\<lparr>tf_end := None\<rparr>)
      | Some e \<Rightarrow>
          (case tf_start tf of
             None \<Rightarrow> Inr (tf\<lparr>tf_end := Some e\<rparr>)
           | Some s \<Rightarrow> if e < s then Inl ValueError else Inr (tf\<lparr>tf_end := Some e\<rparr>)))"

definition set_start :: "timeframe \<Rightarrow> time option \<Rightarrow> error + timeframe" where
  "set_start tf new_start =
     (case new_start of
        None \<Rightarrow> Inr (tf\<lparr>tf_start := None\<rparr>)
      | Some s \<Rightarrow>
          (case tf_end tf of
             None \<Rightarrow> Inr (tf\<lparr>tf_start := Some s\<rparr>)
           | Some e \<Rightarrow> if e < s then Inl ValueError else Inr (tf\<lparr>tf_start := Some s\<rparr>)))"

text \<open>
  \<^verbatim>\<open>TimeFrame\<close> objects are shared and updated in place: the list that \<^verbatim>\<open>combined\<close>
  returns holds the very objects that the rows of \<^verbatim>\<open>_data\<close> hold. They live in a store,
  and lists hold their addresses.
\<close>

type_synonym ref = nat

type_synonym store = "ref \<Rightarrow> timeframe"

text \<open>
  One row of \<^verbatim>\<open>_data\<close>: the index is the start of the chunk, \<^verbatim>\<open>end\<close> its end and
  \<^verbatim>\<open>sections\<close> the list of \<^verbatim>\<open>TimeFrame\<close> objects of the chunk. The list of a row is
  itself a mutable object: \<^verbatim>\<open>row['sections']\<close> hands out the list that the table
  stores, so \<^verbatim>\<open>pop\<close> on it changes the row.
\<close>

record chunk =
  c_index :: time
  c_end :: time
  c_sections :: "ref list"

text \<open>
  A \<^verbatim>\<open>GoodSectionsResults\<close> object: \<^verbatim>\<open>max_sample_period_td\<close>, the rows of \<^verbatim>\<open>_data\<close> in
  their order, and the store of the \<^verbatim>\<open>TimeFrame\<close> objects with the next free address.
\<close>

record results =
  max_sample_period_td :: time
  data :: "chunk list"
  heap :: store
  next_ref :: ref

definition unbounded :: timeframe where
  "unbounded = \<lparr>tf_start = None, tf_end = None, include_end = False\<rparr>"

text \<open>\<^verbatim>\<open>GoodSectionsResults(max_sample_period)\<close>: no rows yet.\<close>

definition init :: "time \<Rightarrow> results" where
  "init max_sample_period =
     \<lparr>max_sample_period_td = max_sample_period, data = [],
      heap = (\<lambda>_. unbounded), next_ref = 0\<rparr>"

text \<open>
  Modelled from the spec: \<^verbatim>\<open>Results.append\<close> of \<^verbatim>\<open>nilmtk.results\<close> is not part of the
  sources at hand; \<^verbatim>\<open>GoodSectionsResults.append\<close> only delegates to it. It "adds one chunk
  record in caller-supplied order (no re-sorting, no dedup)". The chunk's boundary
  \<^verbatim>\<open>timeframe\<close> is given by its start and its end, both set; the payload
  \<^verbatim>\<open>{'sections': [l]}\<close> is given by the list \<^verbatim>\<open>l\<close> that ends up in the row's cell.
\<close>

definition append :: "results \<Rightarrow> time \<Rightarrow> time \<Rightarrow> ref list \<Rightarrow> results" where
  "append s start chunk_end secs =
     s\<lparr>data := data s @ [\<lparr>c_index = start, c_end = chunk_end, c_sections = secs\<rparr>]\<rparr>"

section \<open>The merge: \<^verbatim>\<open>combined\<close>\<close>

text \<open>
  The state of the loop of \<^verbatim>\<open>combined\<close>: the list \<^verbatim>\<open>sections\<close>, the variable
  \<^verbatim>\<open>end_date_of_prev_row\<close> and the store.
\<close>

type_synonym loop_state = "ref list \<times> time option \<times> store"

text \<open>
  The first \<^verbatim>\<open>if\<close> of the loop body (lines 51 to 57). The condition is evaluated left to
  right and stops at the first false conjunct, so \<^verbatim>\<open>row_sections[0]\<close> is read only when
  the rows are adjacent; on an empty list it raises \<^verbatim>\<open>IndexError\<close>. In the body,
  \<^verbatim>\<open>sections[-1]\<close> raises \<^verbatim>\<open>IndexError\<close> on an empty list, the \<^verbatim>\<open>assert\<close> raises
  \<^verbatim>\<open>AssertionError\<close>, and the assignment to \<^verbatim>\<open>end\<close> is outside any \<^verbatim>\<open>try\<close>. The result
  is the store and the row's list after \<^verbatim>\<open>pop(0)\<close>.
\<close>

definition merge_first ::
    "time \<Rightarrow> time \<Rightarrow> ref list \<Rightarrow> time option \<Rightarrow> store \<Rightarrow> ref list \<Rightarrow> error + (store \<times> ref list)" where
  "merge_first msp index sections end_date_of_prev_row h row_sections =
     (case end_date_of_prev_row of
        None \<Rightarrow> Inr (h, row_sections)
      | Some p \<Rightarrow>
          if p - msp \<le> index \<and> index \<le> p then
            (case row_sections of
               [] \<Rightarrow> Inl IndexError
             | r # rest \<Rightarrow>
                 if tf_start (h r) = None then
                   (if sections = [] then Inl IndexError
                    else if tf_end (h (last sections)) \<noteq> None then Inl AssertionError
                    else
                      (case set_end (h (last sections)) (tf_end (h r)) of
                         Inl e \<Rightarrow> Inl e
                       | Inr tf \<Rightarrow> Inr (h(last sections := tf), rest)))
                 else Inr (h, row_sections))
          else Inr (h, row_sections))"

text \<open>The second \<^verbatim>\<open>if\<close> (lines 62 to 66): a \<^verbatim>\<open>ValueError\<close> of the setter is swallowed.\<close>

definition close_last :: "ref list \<Rightarrow> time option \<Rightarrow> store \<Rightarrow> store" where
  "close_last sections end_date_of_prev_row h =
     (if sections \<noteq> [] \<and> tf_end (h (last sections)) = None then
        (case set_end (h (last sections)) end_date_of_prev_row of
           Inl e \<Rightarrow> h
         | Inr tf \<Rightarrow> h(last sections := tf))
      else h)"

text \<open>The third \<^verbatim>\<open>if\<close> (lines 67 to 71), guarded by \<^verbatim>\<open>row_sections\<close> being non-empty.\<close>

definition open_first :: "time \<Rightarrow> store \<Rightarrow> ref list \<Rightarrow> store" where
  "open_first index h row_sections =
     (case row_sections of
        [] \<Rightarrow> h
      | r # rest \<Rightarrow>
          if tf_start (h r) = None then
            (case set_start (h r) (Some index) of
               Inl e \<Rightarrow> h
             | Inr tf \<Rightarrow> h(r := tf))
          else h)"

text \<open>One pass of the loop body: the new loop state and the row as the pass leaves it.\<close>

definition combined_row :: "time \<Rightarrow> loop_state \<Rightarrow> chunk \<Rightarrow> error + (loop_state \<times> chunk)" where
  "combined_row msp st row =
     (case st of (sections, end_date_of_prev_row, h) \<Rightarrow>
        (case merge_first msp (c_index row) sections end_date_of_prev_row h (c_sections row) of
           Inl e \<Rightarrow> Inl e
         | Inr (h1, row_sections) \<Rightarrow>
             Inr ((sections @ row_sections, Some (c_end row),
                   open_first (c_index row) (close_last sections end_date_of_prev_row h1)
                     row_sections),
                  row\<lparr>c_sections := row_sections\<rparr>)))"

fun combined_loop :: "time \<Rightarrow> loop_state \<Rightarrow> chunk list \<Rightarrow> error + (loop_state \<times> chunk list)" where
  "combined_loop msp st [] = Inr (st, [])"
| "combined_loop msp st (row # rows) =
     (case combined_row msp st row of
        Inl e \<Rightarrow> Inl e
      | Inr (st1, row1) \<Rightarrow>
          (case combined_loop msp st1 rows of
             Inl e \<Rightarrow> Inl e
           | Inr (st2, rows1) \<Rightarrow> Inr (st2, row1 # rows1)))"

text \<open>What follows the loop (lines 76 to 79); the assignment to \<^verbatim>\<open>end\<close> is not in a \<^verbatim>\<open>try\<close>.\<close>

definition finish :: "ref list \<Rightarrow> time option \<Rightarrow> store \<Rightarrow> error + store" where
  "finish sections end_date_of_prev_row h =
     (if sections = [] then Inr h
      else
        (let l = last sections; h1 = h(l := (h l)\<lparr>include_end := True\<rparr>) in
           if tf_end (h1 l) = None then
             (case set_end (h1 l) end_date_of_prev_row of
                Inl e \<Rightarrow> Inl e
              | Inr tf \<Rightarrow> Inr (h1(l := tf)))
           else Inr h1))"

text \<open>
  \<^verbatim>\<open>combined()\<close>: the returned list of objects, and the object as the call leaves it.
\<close>

definition combined :: "results \<Rightarrow> error + (ref list \<times> results)" where
  "combined s =
     (case combined_loop (max_sample_period_td s) ([], None, heap s) (data s) of
        Inl e \<Rightarrow> Inl e
      | Inr ((sections, end_date_of_prev_row, h), rows) \<Rightarrow>
          (case finish sections end_date_of_prev_row h of
             Inl e \<Rightarrow> Inl e
           | Inr h1 \<Rightarrow> Inr (sections, s\<lparr>data := rows, heap := h1\<rparr>)))"

text \<open>The intervals that a call returns, read when it returns.\<close>

definition combined_vals :: "results \<Rightarrow> error + timeframe list" where
  "combined_vals s =
     (case combined s of Inl e \<Rightarrow> Inl e | Inr (out, s1) \<Rightarrow> Inr (map (heap s1) out))"

text \<open>The intervals that a second call returns, after a first one on the same object.\<close>

definition combined_twice_vals :: "results \<Rightarrow> error + timeframe list" where
  "combined_twice_vals s =
     (case combined s of Inl e \<Rightarrow> Inl e | Inr (out, s1) \<Rightarrow> combined_vals s1)"

text \<open>The rows of \<^verbatim>\<open>_data\<close> after a call.\<close>

definition data_after_combined :: "results \<Rightarrow> error + chunk list" where
  "data_after_combined s =
     (case combined s of Inl e \<Rightarrow> Inl e | Inr (out, s1) \<Rightarrow> Inr (data s1))"

section \<open>Filling an accumulator as a detection pass does\<close>

text \<open>
  The detector creates the \<^verbatim>\<open>TimeFrame\<close> objects of a chunk, one new object for each
  interval, and hands them to \<^verbatim>\<open>append\<close>.
\<close>

definition new_object :: "results \<Rightarrow> timeframe \<Rightarrow> ref \<times> results" where
  "new_object s t =
     (next_ref s, s\<lparr>heap := (heap s)(next_ref s := t), next_ref := Suc (next_ref s)\<rparr>)"

fun new_objects :: "results \<Rightarrow> timeframe list \<Rightarrow> ref list \<times> results" where
  "new_objects s [] = ([], s)"
| "new_objects s (t # ts) =
     (case new_object s t of
        (r, s1) \<Rightarrow> (case new_objects s1 ts of (refs, s2) \<Rightarrow> (r # refs, s2)))"

definition append_chunk :: "results \<Rightarrow> time \<times> time \<times> timeframe list \<Rightarrow> results" where
  "append_chunk s c =
     (case c of (start, chunk_end, tfs) \<Rightarrow>
        (case new_objects s tfs of (refs, s1) \<Rightarrow> append s1 start chunk_end refs))"

definition build :: "time \<Rightarrow> (time \<times> time \<times> timeframe list) list \<Rightarrow> results" where
  "build max_sample_period cs = foldl append_chunk (init max_sample_period) cs"

text \<open>A \<^verbatim>\<open>TimeFrame\<close> with the given bounds and \<^verbatim>\<open>include_end\<close> left at its default.\<close>

definition tf :: "time option \<Rightarrow> time option \<Rightarrow> timeframe" where
  "tf s e = \<lparr>tf_start = s, tf_end = e, include_end = False\<rparr>"

section \<open>The cache codec\<close>

text \<open>A cell of a time column of the cache table: a timestamp or the sentinel \<^verbatim>\<open>NaT\<close>.\<close>

datatype cell = NaT | Timestamp time

text \<open>
  Modelled from the spec: \<^verbatim>\<open>convert_none_to_nat\<close> of \<^verbatim>\<open>nilmtk.timeframe\<close> is imported
  but not part of the sources at hand: "unbounded interval boundaries are encoded with an
  explicit not-a-time sentinel".
\<close>

definition convert_none_to_nat :: "time option \<Rightarrow> cell" where
  "convert_none_to_nat x = (case x of None \<Rightarrow> NaT | Some t \<Rightarrow> Timestamp t)"

definition convert_nat_to_none :: "cell \<Rightarrow> time option" where
  "convert_nat_to_none x = (case x of NaT \<Rightarrow> None | Timestamp t \<Rightarrow> Some t)"

text \<open>
  Modelled from the spec: the constructor \<^verbatim>\<open>TimeFrame(start, end)\<close>, not part of the
  sources at hand. It takes the sentinel for an unbounded side, sets the start and then
  the end through the setters, and leaves \<^verbatim>\<open>include_end\<close> false.
\<close>

definition TimeFrame :: "cell \<Rightarrow> cell \<Rightarrow> error + timeframe" where
  "TimeFrame start stop =
     (case set_start unbounded (convert_nat_to_none start) of
        Inl e \<Rightarrow> Inl e
      | Inr t \<Rightarrow> set_end t (convert_nat_to_none stop))"

text \<open>
  Modelled from the spec: equality of \<^verbatim>\<open>TimeFrame\<close> objects, which \<^verbatim>\<open>in\<close> uses, compares
  the two boundaries.
\<close>

definition timeframe_eq :: "timeframe \<Rightarrow> timeframe \<Rightarrow> bool" where
  "timeframe_eq a b = (tf_start a = tf_start b \<and> tf_end a = tf_end b)"

text \<open>
  A row of the cache table: its index and the columns \<^verbatim>\<open>end\<close>, \<^verbatim>\<open>section_start\<close> and
  \<^verbatim>\<open>section_end\<close>. The table is the list of its rows; an index may repeat.
\<close>

record cache_row =
  idx :: time
  row_end :: time
  section_start :: cell
  section_end :: cell

text \<open>\<^verbatim>\<open>export_to_cache()\<close>: one row for each section of each row of \<^verbatim>\<open>_data\<close>.\<close>

definition export_row :: "store \<Rightarrow> chunk \<Rightarrow> cache_row list" where
  "export_row h row =
     map (\<lambda>section.
            \<lparr>idx = c_index row, row_end = c_end row,
             section_start = convert_none_to_nat (tf_start (h section)),
             section_end = convert_none_to_nat (tf_end (h section))\<rparr>)
         (c_sections row)"

definition export_to_cache :: "results \<Rightarrow> cache_row list" where
  "export_to_cache s = concat (map (export_row (heap s)) (data s))"

text \<open>
  \<^verbatim>\<open>cached_stat.groupby(level=0)\<close>: pandas yields one group for each distinct index, the
  groups in ascending order of the index and the rows of a group in the table's order.
\<close>

definition groupby_level0 :: "cache_row list \<Rightarrow> (time \<times> cache_row list) list" where
  "groupby_level0 cached_stat =
     map (\<lambda>name. (name, filter (\<lambda>r. idx r = name) cached_stat))
         (sort (remdups (map idx cached_stat)))"

text \<open>
  The list comprehension of line 116: one new \<^verbatim>\<open>TimeFrame\<close> for each row of the group;
  the constructor may raise.
\<close>

fun new_timeframes :: "results \<Rightarrow> cache_row list \<Rightarrow> error + (ref list \<times> results)" where
  "new_timeframes s [] = Inr ([], s)"
| "new_timeframes s (row # rows) =
     (case TimeFrame (section_start row) (section_end row) of
        Inl e \<Rightarrow> Inl e
      | Inr t \<Rightarrow>
          (case new_object s t of
             (r, s1) \<Rightarrow>
               (case new_timeframes s1 rows of
                  Inl e \<Rightarrow> Inl e
                | Inr (refs, s2) \<Rightarrow> Inr (r # refs, s2))))"

text \<open>
  The body of the loop of \<^verbatim>\<open>import_from_cache\<close> for one group. The \<^verbatim>\<open>assert\<close> wants
  exactly one distinct value in the column \<^verbatim>\<open>end\<close> of the group.
\<close>

definition import_group ::
    "timeframe list \<Rightarrow> results \<Rightarrow> time \<times> cache_row list \<Rightarrow> error + results" where
  "import_group sections s g =
     (case g of (name, grp) \<Rightarrow>
        (case grp of
           [] \<Rightarrow> Inl AssertionError
         | first # others \<Rightarrow>
             if length (remdups (map row_end grp)) \<noteq> 1 then Inl AssertionError
             else
               (case TimeFrame (Timestamp name) (Timestamp (row_end first)) of
                  Inl e \<Rightarrow> Inl e
                | Inr timeframe \<Rightarrow>
                    if list_ex (timeframe_eq timeframe) sections then
                      (case new_timeframes s grp of
                         Inl e \<Rightarrow> Inl e
                       | Inr (timeframes, s1) \<Rightarrow>
                           Inr (append s1 name (row_end first) timeframes))
                    else Inr s)))"

fun import_groups ::
    "timeframe list \<Rightarrow> results \<Rightarrow> (time \<times> cache_row list) list \<Rightarrow> error + results" where
  "import_groups sections s [] = Inr s"
| "import_groups sections s (g # gs) =
     (case import_group sections s g of
        Inl e \<Rightarrow> Inl e
      | Inr s1 \<Rightarrow> import_groups sections s1 gs)"

definition import_from_cache ::
    "results \<Rightarrow> cache_row list \<Rightarrow> timeframe list \<Rightarrow> error + results" where
  "import_from_cache s cached_stat sections =
     import_groups sections s (groupby_level0 cached_stat)"

text \<open>The chunk boundaries of an accumulator, as \<^verbatim>\<open>TimeFrame\<close> values.\<close>

definition chunk_boundaries_of :: "results \<Rightarrow> timeframe list" where
  "chunk_boundaries_of s = map (\<lambda>row. tf (Some (c_index row)) (Some (c_end row))) (data s)"

section \<open>\<^verbatim>\<open>unify\<close>\<close>

text \<open>
  The names that the module binds at its top level (lines 1 to 8): the six imports and the
  class. A name that a function body uses is looked up among them and then among
  Python's built-in names, of which the ones the module uses are listed; \<^verbatim>\<open>warn\<close> is
  not a built-in name of Python. A name found in neither raises \<^verbatim>\<open>NameError\<close>.
\<close>

definition module_names :: "string list" where
  "module_names =
     [''pd'', ''timedelta'', ''plt'', ''Results'', ''SECS_PER_DAY'', ''TimeFrame'',
      ''convert_none_to_nat'', ''GoodSectionsResults'']"

definition builtin_names :: "string list" where
  "builtin_names = [''super'', ''ValueError'', ''None'', ''True'']"

definition lookup_name :: "string \<Rightarrow> error + string" where
  "lookup_name n =
     (if n \<in> set module_names \<or> n \<in> set builtin_names then Inr n else Inl NameError)"

text \<open>
  Modelled from the spec: \<^verbatim>\<open>Results.unify\<close> of \<^verbatim>\<open>nilmtk.results\<close> is not part of the
  sources at hand; the spec calls it a no-op.
\<close>

definition results_unify :: "results \<Rightarrow> results \<Rightarrow> results" where
  "results_unify s other = s"

text \<open>
  \<^verbatim>\<open>unify(other)\<close> (lines 83 to 86): the warnings emitted and the object after the call.
  The call of \<^verbatim>\<open>warn\<close> first looks the name up.
\<close>

definition unify :: "results \<Rightarrow> results \<Rightarrow> error + (string list \<times> results)" where
  "unify s other =
     (case lookup_name ''warn'' of
        Inl e \<Rightarrow> Inl e
      | Inr f \<Rightarrow>
          Inr ([''Not yet able to do unification of good sections results.''],
               results_unify s other))"

text \<open>A row whose boundary is among the known chunk boundaries.\<close>

definition accepted :: "timeframe list \<Rightarrow> chunk \<Rightarrow> bool" where
  "accepted known c = list_ex (timeframe_eq (tf (Some (c_index c)) (Some (c_end c)))) known"

text \<open>The cache rows that a chunk with the given boundary and intervals is exported to.\<close>

definition cache_rows :: "time \<times> time \<times> timeframe list \<Rightarrow> cache_row list" where
  "cache_rows c =
     (case c of (k, e, ts) \<Rightarrow>
        map (\<lambda>t. \<lparr>idx = k, row_end = e,
                   section_start = convert_none_to_nat (tf_start t),
                   section_end = convert_none_to_nat (tf_end t)\<rparr>) ts)"

text \<open>
  An interval as \<^verbatim>\<open>TimeFrame(start, end)\<close> constructs it: \<^verbatim>\<open>include_end\<close> false, and the start
  not after the end when both are set.
\<close>

definition fresh_timeframe :: "timeframe \<Rightarrow> bool" where
  "fresh_timeframe t =
     (\<not> include_end t \<and>
      (case tf_start t of
         None \<Rightarrow> True
       | Some s \<Rightarrow> (case tf_end t of None \<Rightarrow> True | Some e \<Rightarrow> s \<le> e)))"

text \<open>
  A chunk as it comes back from the cache: a boundary with the start not after the end, and
  at least one interval, each as the constructor makes it.
\<close>

definition fresh_chunk :: "time \<times> time \<times> timeframe list \<Rightarrow> bool" where
  "fresh_chunk c = (case c of (k, e, ts) \<Rightarrow> k \<le> e \<and> ts \<noteq> [] \<and> list_all fresh_timeframe ts)"

text \<open>Every object that a row holds has been allocated.\<close>

definition refs_allocated :: "results \<Rightarrow> bool" where
  "refs_allocated s = list_all (\<lambda>c. list_all (\<lambda>r. r < next_ref s) (c_sections c)) (data s)"

text \<open>
  A list of intervals with \<^verbatim>\<open>include_end\<close> set on the last one, as \<^verbatim>\<open>combined\<close> leaves
  the list it returns.
\<close>

definition mark_last :: "timeframe list \<Rightarrow> timeframe list" where
  "mark_last ts = (if ts = [] then [] else butlast ts @ [(last ts)\<lparr>include_end := True\<rparr>])"

text \<open>An interval with both of its bounds set.\<close>

definition bounded_timeframe :: "timeframe \<Rightarrow> bool" where
  "bounded_timeframe t = (tf_start t \<noteq> None \<and> tf_end t \<noteq> None)"

section \<open>Evaluation\<close>

lemmas build_simps = build_def append_chunk_def new_object_def append_def init_def tf_def

lemmas import_simps =
  import_from_cache_def groupby_level0_def import_group_def TimeFrame_def
  convert_nat_to_none_def timeframe_eq_def unbounded_def set_start_def set_end_def
  new_object_def append_def init_def tf_def

lemmas export_simps = export_to_cache_def export_row_def convert_none_to_nat_def

lemmas combined_simps =
  combined_def combined_vals_def combined_row_def merge_first_def close_last_def
  open_first_def finish_def set_end_def set_start_def Let_def

section \<open>The objects of appended chunks\<close>

lemma new_objects_Cons:
  "new_objects s (t # ts) =
     (next_ref s #
        fst (new_objects (s\<lparr>heap := (heap s)(next_ref s := t), next_ref := Suc (next_ref s)\<rparr>) ts),
      snd (new_objects (s\<lparr>heap := (heap s)(next_ref s := t), next_ref := Suc (next_ref s)\<rparr>) ts))"
  by (simp add: new_object_def split: prod.splits)

lemma new_objects_state:
  "data (snd (new_objects s ts)) = data s \<and>
   max_sample_period_td (snd (new_objects s ts)) = max_sample_period_td s \<and>
   next_ref (snd (new_objects s ts)) = next_ref s + length ts"
  by (induction ts arbitrary: s) (simp_all add: new_objects_Cons del: new_objects.simps(2))

lemma new_objects_refs:
  "fst (new_objects s ts) = [next_ref s ..< next_ref s + length ts]"
proof (induction ts arbitrary: s)
  case Nil
  then show ?case by simp
next
  case (Cons t ts)
  have "[next_ref s ..< next_ref s + length (t # ts)] =
      next_ref s # [Suc (next_ref s) ..< Suc (next_ref s) + length ts]"
    by (simp add: upt_conv_Cons del: upt_Suc)
  with Cons show ?case
    by (simp add: new_objects_Cons del: upt_Suc new_objects.simps(2))
qed

lemma new_objects_heap_old:
  "r < next_ref s \<Longrightarrow> heap (snd (new_objects s ts)) r = heap s r"
  by (induction ts arbitrary: s) (simp_all add: new_objects_Cons del: new_objects.simps(2))

lemma new_objects_heap_new:
  "map (heap (snd (new_objects s ts))) (fst (new_objects s ts)) = ts"
proof (induction ts arbitrary: s)
  case Nil
  then show ?case by simp
next
  case (Cons t ts)
  let ?s' = "s\<lparr>heap := (heap s)(next_ref s := t), next_ref := Suc (next_ref s)\<rparr>"
  have "heap (snd (new_objects ?s' ts)) (next_ref s) = heap ?s' (next_ref s)"
    by (rule new_objects_heap_old) simp
  with Cons [of ?s'] show ?case
    by (simp add: new_objects_Cons del: new_objects.simps(2))
qed


lemma append_chunk_eq:
  "append_chunk s (k, e, ts) = append (snd (new_objects s ts)) k e (fst (new_objects s ts))"
  by (simp add: append_chunk_def split: prod.splits)

lemma new_objects_data_update:
  "new_objects (s\<lparr>data := d\<rparr>) ts =
     (fst (new_objects s ts), (snd (new_objects s ts))\<lparr>data := d\<rparr>)"
proof (induction ts arbitrary: s)
  case Nil
  then show ?case by simp
next
  case (Cons t ts)
  let ?s' = "s\<lparr>heap := (heap s)(next_ref s := t), next_ref := Suc (next_ref s)\<rparr>"
  have "(s\<lparr>data := d\<rparr>)\<lparr>heap := (heap (s\<lparr>data := d\<rparr>))(next_ref (s\<lparr>data := d\<rparr>) := t),
          next_ref := Suc (next_ref (s\<lparr>data := d\<rparr>))\<rparr> = ?s'\<lparr>data := d\<rparr>"
    by simp
  then have "new_objects (s\<lparr>data := d\<rparr>) (t # ts) =
      (next_ref s # fst (new_objects (?s'\<lparr>data := d\<rparr>) ts),
       snd (new_objects (?s'\<lparr>data := d\<rparr>) ts))"
    by (simp only: new_objects_Cons) simp
  also have "\<dots> = (next_ref s # fst (new_objects ?s' ts), (snd (new_objects ?s' ts))\<lparr>data := d\<rparr>)"
    by (simp only: Cons.IH [of ?s'] fst_conv snd_conv)
  also have "\<dots> = (fst (new_objects s (t # ts)), (snd (new_objects s (t # ts)))\<lparr>data := d\<rparr>)"
    by (simp only: new_objects_Cons fst_conv snd_conv)
  finally show ?case .
qed

lemma build_two:
  "\<exists>h. build msp [(kA, T, ta), (kB, eB, tb)] =
     \<lparr>max_sample_period_td = msp,
      data = [\<lparr>c_index = kA, c_end = T, c_sections = [0 ..< length ta]\<rparr>,
              \<lparr>c_index = kB, c_end = eB, c_sections = [length ta ..< length ta + length tb]\<rparr>],
      heap = h, next_ref = length ta + length tb\<rparr> \<and>
     map h [0 ..< length ta] = ta \<and> map h [length ta ..< length ta + length tb] = tb"
proof -
  let ?s0 = "init msp"
  let ?s1 = "snd (new_objects ?s0 ta)"
  let ?s2 = "snd (new_objects ?s1 tb)"
  have n0: "next_ref ?s0 = 0" by (simp add: init_def)
  have n1: "next_ref ?s1 = length ta" by (simp add: new_objects_state n0)
  have r1: "fst (new_objects ?s0 ta) = [0 ..< length ta]"
    by (simp add: new_objects_refs n0)
  have r2: "fst (new_objects ?s1 tb) = [length ta ..< length ta + length tb]"
    by (simp add: new_objects_refs n1)
  have h1: "map (heap ?s1) [0 ..< length ta] = ta"
    using new_objects_heap_new [of ?s0 ta] by (simp only: r1)
  have h2: "map (heap ?s2) [length ta ..< length ta + length tb] = tb"
    using new_objects_heap_new [of ?s1 tb] by (simp only: r2)
  have "map (heap ?s2) [0 ..< length ta] = map (heap ?s1) [0 ..< length ta]"
    by (rule map_cong) (simp_all add: new_objects_heap_old n1)
  with h1 have h3: "map (heap ?s2) [0 ..< length ta] = ta" by simp
  have "build msp [(kA, T, ta), (kB, eB, tb)] =
     \<lparr>max_sample_period_td = msp,
      data = [\<lparr>c_index = kA, c_end = T, c_sections = [0 ..< length ta]\<rparr>,
              \<lparr>c_index = kB, c_end = eB, c_sections = [length ta ..< length ta + length tb]\<rparr>],
      heap = heap ?s2, next_ref = length ta + length tb\<rparr>"
    by (rule results.equality)
      (simp_all add: build_def append_chunk_eq append_def new_objects_data_update r1 r2
        new_objects_state n0 n1, simp_all add: init_def)
  with h2 h3 show ?thesis by blast
qed

text \<open>The two chunks of the merge scenarios, with their objects at the addresses they get.\<close>

lemma two_chunks:
  obtains h where
    "build msp [(kA, T, ps @ [a]), (kB, eB, b # qs)] =
       \<lparr>max_sample_period_td = msp,
        data = [\<lparr>c_index = kA, c_end = T, c_sections = [0 ..< length ps] @ [length ps]\<rparr>,
                \<lparr>c_index = kB, c_end = eB,
                 c_sections = Suc (length ps) #
                   [Suc (Suc (length ps)) ..< Suc (Suc (length ps)) + length qs]\<rparr>],
        heap = h, next_ref = Suc (Suc (length ps)) + length qs\<rparr>"
    and "map h [0 ..< length ps] = ps" and "h (length ps) = a" and "h (Suc (length ps)) = b"
    and "map h [Suc (Suc (length ps)) ..< Suc (Suc (length ps)) + length qs] = qs"
proof -
  from build_two [of msp kA T "ps @ [a]" kB eB "b # qs"] obtain h where
    b: "build msp [(kA, T, ps @ [a]), (kB, eB, b # qs)] =
       \<lparr>max_sample_period_td = msp,
        data = [\<lparr>c_index = kA, c_end = T, c_sections = [0 ..< length (ps @ [a])]\<rparr>,
                \<lparr>c_index = kB, c_end = eB,
                 c_sections = [length (ps @ [a]) ..< length (ps @ [a]) + length (b # qs)]\<rparr>],
        heap = h, next_ref = length (ps @ [a]) + length (b # qs)\<rparr>" and
    m1: "map h [0 ..< length (ps @ [a])] = ps @ [a]" and
    m2: "map h [length (ps @ [a]) ..< length (ps @ [a]) + length (b # qs)] = b # qs"
    by (elim exE conjE)
  have u1: "[0 ..< length (ps @ [a])] = [0 ..< length ps] @ [length ps]"
    by simp
  have u2: "[length (ps @ [a]) ..< length (ps @ [a]) + length (b # qs)] =
      Suc (length ps) # [Suc (Suc (length ps)) ..< Suc (Suc (length ps)) + length qs]"
    by (simp add: upt_conv_Cons del: upt_Suc)
  from m1 have "map h [0 ..< length ps] @ [h (length ps)] = ps @ [a]"
    by (simp only: u1 map_append list.map)
  then have a: "map h [0 ..< length ps] = ps" "h (length ps) = a"
    by simp_all
  from m2 have "h (Suc (length ps)) #
      map h [Suc (Suc (length ps)) ..< Suc (Suc (length ps)) + length qs] = b # qs"
    by (simp only: u2 list.map)
  then have c: "h (Suc (length ps)) = b"
    "map h [Suc (Suc (length ps)) ..< Suc (Suc (length ps)) + length qs] = qs"
    by simp_all
  from b have "build msp [(kA, T, ps @ [a]), (kB, eB, b # qs)] =
       \<lparr>max_sample_period_td = msp,
        data = [\<lparr>c_index = kA, c_end = T, c_sections = [0 ..< length ps] @ [length ps]\<rparr>,
                \<lparr>c_index = kB, c_end = eB,
                 c_sections = Suc (length ps) #
                   [Suc (Suc (length ps)) ..< Suc (Suc (length ps)) + length qs]\<rparr>],
        heap = h, next_ref = Suc (Suc (length ps)) + length qs\<rparr>"
    by (simp only: u1 u2) simp
  with a c that show ?thesis
    by blast
qed

lemma two_chunks_distinct:
  "distinct ([0 ..< n] @ n # Suc n # [Suc (Suc n) ..< Suc (Suc n) + m])"
proof -
  have "[0 ..< n] @ n # Suc n # [Suc (Suc n) ..< Suc (Suc n) + m] = [0 ..< Suc (Suc n) + m]"
    by (induction m) (simp_all add: upt_conv_Cons)
  then show ?thesis
    by (simp only: distinct_upt)
qed

section \<open>Merging across a chunk boundary\<close>

text \<open>
  The first row of \<^verbatim>\<open>_data\<close>, then a second row that is merged with it, or that is not.
\<close>

lemma first_row:
  assumes "ra = [] \<or> tf_start (h (hd ra)) \<noteq> None"
  shows "combined_row msp ([], None, h) \<lparr>c_index = kA, c_end = T, c_sections = ra\<rparr> =
         Inr ((ra, Some T, h), \<lparr>c_index = kA, c_end = T, c_sections = ra\<rparr>)"
  using assms
  by (cases ra) (auto simp: combined_row_def merge_first_def close_last_def open_first_def)

lemma merged_row:
  assumes "distinct (pa @ x # y # pb)"
    and "tf_start (h x) = Some s" and "tf_end (h x) = None"
    and "tf_start (h y) = None" and "tf_end (h y) = Some U"
    and "T - msp \<le> kB" and "kB \<le> T" and "s \<le> U"
    and "pb = [] \<or> tf_start (h (hd pb)) \<noteq> None"
  shows "combined_row msp (pa @ [x], Some T, h)
           \<lparr>c_index = kB, c_end = eB, c_sections = y # pb\<rparr> =
         Inr ((pa @ [x] @ pb, Some eB, h(x := (h x)\<lparr>tf_end := Some U\<rparr>)),
              \<lparr>c_index = kB, c_end = eB, c_sections = pb\<rparr>)"
proof -
  have m: "merge_first msp kB (pa @ [x]) (Some T) h (y # pb) =
      Inr (h(x := (h x)\<lparr>tf_end := Some U\<rparr>), pb)"
    using assms(2-8) by (simp add: merge_first_def set_end_def)
  have c: "close_last (pa @ [x]) (Some T) (h(x := (h x)\<lparr>tf_end := Some U\<rparr>)) =
      h(x := (h x)\<lparr>tf_end := Some U\<rparr>)"
    by (simp add: close_last_def)
  have o: "open_first kB (h(x := (h x)\<lparr>tf_end := Some U\<rparr>)) pb =
      h(x := (h x)\<lparr>tf_end := Some U\<rparr>)"
  proof (cases pb)
    case Nil
    then show ?thesis by (simp add: open_first_def)
  next
    case (Cons r rest)
    with assms(1,9) have "r \<noteq> x" and "tf_start (h r) \<noteq> None"
      by auto
    with Cons show ?thesis
      by (auto simp: open_first_def)
  qed
  show ?thesis
    by (simp add: combined_row_def m c o)
qed

lemma finish_closed:
  "sections \<noteq> [] \<Longrightarrow> tf_end (g (last sections)) \<noteq> None \<Longrightarrow>
   finish sections prev g = Inr (g(last sections := (g (last sections))\<lparr>include_end := True\<rparr>))"
  by (auto simp: finish_def Let_def)

lemma map_mark_last:
  assumes "distinct refs" and "refs \<noteq> []"
  shows "map (g(last refs := (g (last refs))\<lparr>include_end := True\<rparr>)) refs = mark_last (map g refs)"
proof -
  from assms(2) obtain init l where r: "refs = init @ [l]"
    by (cases refs rule: rev_cases) auto
  with assms(1) have "l \<notin> set init"
    by simp
  then have "map (g(l := (g l)\<lparr>include_end := True\<rparr>)) init = map g init"
    by (intro map_cong) auto
  with r show ?thesis
    by (simp add: mark_last_def)
qed

lemma map_upd_other: "x \<notin> set refs \<Longrightarrow> map (g(x := v)) refs = map g refs"
  by (induction refs) auto


lemma adjacency_merge_refs:
  assumes d: "distinct (pa @ x # y # pb)"
    and x: "tf_start (h x) = Some s" "tf_end (h x) = None"
    and y: "tf_start (h y) = None" "tf_end (h y) = Some U"
    and adj: "T - msp \<le> kB" "kB \<le> T" and le: "s \<le> U"
    and ba: "list_all (\<lambda>r. bounded_timeframe (h r)) pa"
    and bb: "list_all (\<lambda>r. bounded_timeframe (h r)) pb"
  shows "combined_vals
           \<lparr>max_sample_period_td = msp,
            data = [\<lparr>c_index = kA, c_end = T, c_sections = pa @ [x]\<rparr>,
                    \<lparr>c_index = kB, c_end = eB, c_sections = y # pb\<rparr>],
            heap = h, next_ref = n\<rparr> =
         Inr (mark_last (map h pa @ [(h x)\<lparr>tf_end := Some U\<rparr>] @ map h pb))"
proof -
  let ?h1 = "h(x := (h x)\<lparr>tf_end := Some U\<rparr>)"
  let ?out = "pa @ [x] @ pb"
  have "tf_start (h (hd (pa @ [x]))) \<noteq> None"
    using x(1) ba by (cases pa) (auto simp: bounded_timeframe_def)
  then have r1: "combined_row msp ([], None, h) \<lparr>c_index = kA, c_end = T, c_sections = pa @ [x]\<rparr> =
      Inr ((pa @ [x], Some T, h), \<lparr>c_index = kA, c_end = T, c_sections = pa @ [x]\<rparr>)"
    by (intro first_row) simp
  have "pb = [] \<or> tf_start (h (hd pb)) \<noteq> None"
    using bb by (cases pb) (auto simp: bounded_timeframe_def)
  from merged_row [OF d x y adj le this]
  have r2: "combined_row msp (pa @ [x], Some T, h) \<lparr>c_index = kB, c_end = eB, c_sections = y # pb\<rparr> =
      Inr ((?out, Some eB, ?h1), \<lparr>c_index = kB, c_end = eB, c_sections = pb\<rparr>)" .
  have l: "combined_loop msp ([], None, h)
      [\<lparr>c_index = kA, c_end = T, c_sections = pa @ [x]\<rparr>,
       \<lparr>c_index = kB, c_end = eB, c_sections = y # pb\<rparr>] =
      Inr ((?out, Some eB, ?h1),
        [\<lparr>c_index = kA, c_end = T, c_sections = pa @ [x]\<rparr>,
         \<lparr>c_index = kB, c_end = eB, c_sections = pb\<rparr>])"
    by (simp add: r1 r2)
  have e: "tf_end (?h1 (last ?out)) \<noteq> None"
  proof (cases "pb = []")
    case True
    then show ?thesis by simp
  next
    case False
    then have "last pb \<in> set pb" by simp
    with d bb have "last pb \<noteq> x" and "tf_end (h (last pb)) \<noteq> None"
      by (auto simp: list_all_iff bounded_timeframe_def)
    with False show ?thesis by simp
  qed
  have f: "finish ?out (Some eB) ?h1 =
      Inr (?h1(last ?out := (?h1 (last ?out))\<lparr>include_end := True\<rparr>))"
    using e by (intro finish_closed) simp_all
  from d have "distinct ?out" and "x \<notin> set pa" and "x \<notin> set pb"
    by auto
  then have v2: "map ?h1 ?out = map h pa @ [(h x)\<lparr>tf_end := Some U\<rparr>] @ map h pb"
    by (simp add: map_upd_other)
  from \<open>distinct ?out\<close>
  have "map (?h1(last ?out := (?h1 (last ?out))\<lparr>include_end := True\<rparr>)) ?out =
      mark_last (map ?h1 ?out)"
    by (rule map_mark_last) simp
  then have v: "map (?h1(last ?out := (?h1 (last ?out))\<lparr>include_end := True\<rparr>)) ?out =
      mark_last (map h pa @ [(h x)\<lparr>tf_end := Some U\<rparr>] @ map h pb)"
    by (simp only: v2)
  show ?thesis
    unfolding combined_vals_def combined_def
    by (simp only: results.simps l f v sum.case prod.case)
qed


lemma gap_row:
  assumes "distinct (pa @ x # y # pb)"
    and "tf_start (h x) = Some s" and "tf_end (h x) = None"
    and "tf_start (h y) = None" and "tf_end (h y) = Some U"
    and "\<not> (T - msp \<le> kB \<and> kB \<le> T)" and "s \<le> T" and "kB \<le> U"
  shows "combined_row msp (pa @ [x], Some T, h)
           \<lparr>c_index = kB, c_end = eB, c_sections = y # pb\<rparr> =
         Inr ((pa @ [x] @ y # pb, Some eB,
               h(x := (h x)\<lparr>tf_end := Some T\<rparr>, y := (h y)\<lparr>tf_start := Some kB\<rparr>)),
              \<lparr>c_index = kB, c_end = eB, c_sections = y # pb\<rparr>)"
proof -
  from assms(1) have xy: "y \<noteq> x" by auto
  have m: "merge_first msp kB (pa @ [x]) (Some T) h (y # pb) = Inr (h, y # pb)"
    using assms(6) by (auto simp: merge_first_def)
  have c: "close_last (pa @ [x]) (Some T) h = h(x := (h x)\<lparr>tf_end := Some T\<rparr>)"
    using assms(2,3,7) by (simp add: close_last_def set_end_def)
  have o: "open_first kB (h(x := (h x)\<lparr>tf_end := Some T\<rparr>)) (y # pb) =
      h(x := (h x)\<lparr>tf_end := Some T\<rparr>, y := (h y)\<lparr>tf_start := Some kB\<rparr>)"
    using assms(4,5,8) xy by (simp add: open_first_def set_start_def)
  show ?thesis
    by (simp add: combined_row_def m c o)
qed

lemma gap_non_merge_refs:
  assumes d: "distinct (pa @ x # y # pb)"
    and x: "tf_start (h x) = Some s" "tf_end (h x) = None"
    and y: "tf_start (h y) = None" "tf_end (h y) = Some U"
    and gap: "\<not> (T - msp \<le> kB \<and> kB \<le> T)" and le: "s \<le> T" "kB \<le> U"
    and ba: "list_all (\<lambda>r. bounded_timeframe (h r)) pa"
    and bb: "list_all (\<lambda>r. bounded_timeframe (h r)) pb"
  shows "combined_vals
           \<lparr>max_sample_period_td = msp,
            data = [\<lparr>c_index = kA, c_end = T, c_sections = pa @ [x]\<rparr>,
                    \<lparr>c_index = kB, c_end = eB, c_sections = y # pb\<rparr>],
            heap = h, next_ref = n\<rparr> =
         Inr (mark_last (map h pa @
                [(h x)\<lparr>tf_end := Some T\<rparr>, (h y)\<lparr>tf_start := Some kB\<rparr>] @ map h pb))"
proof -
  let ?h1 = "h(x := (h x)\<lparr>tf_end := Some T\<rparr>, y := (h y)\<lparr>tf_start := Some kB\<rparr>)"
  let ?out = "pa @ [x] @ y # pb"
  have "tf_start (h (hd (pa @ [x]))) \<noteq> None"
    using x(1) ba by (cases pa) (auto simp: bounded_timeframe_def)
  then have r1: "combined_row msp ([], None, h) \<lparr>c_index = kA, c_end = T, c_sections = pa @ [x]\<rparr> =
      Inr ((pa @ [x], Some T, h), \<lparr>c_index = kA, c_end = T, c_sections = pa @ [x]\<rparr>)"
    by (intro first_row) simp
  from gap_row [OF d x y gap le]
  have r2: "combined_row msp (pa @ [x], Some T, h) \<lparr>c_index = kB, c_end = eB, c_sections = y # pb\<rparr> =
      Inr ((?out, Some eB, ?h1), \<lparr>c_index = kB, c_end = eB, c_sections = y # pb\<rparr>)" .
  have l: "combined_loop msp ([], None, h)
      [\<lparr>c_index = kA, c_end = T, c_sections = pa @ [x]\<rparr>,
       \<lparr>c_index = kB, c_end = eB, c_sections = y # pb\<rparr>] =
      Inr ((?out, Some eB, ?h1),
        [\<lparr>c_index = kA, c_end = T, c_sections = pa @ [x]\<rparr>,
         \<lparr>c_index = kB, c_end = eB, c_sections = y # pb\<rparr>])"
    by (simp add: r1 r2)
  have e: "tf_end (?h1 (last ?out)) \<noteq> None"
  proof (cases "pb = []")
    case True
    with y show ?thesis by simp
  next
    case False
    then have "last pb \<in> set pb" by simp
    with d bb have "last pb \<noteq> x" and "last pb \<noteq> y" and "tf_end (h (last pb)) \<noteq> None"
      by (auto simp: list_all_iff bounded_timeframe_def)
    with False show ?thesis by simp
  qed
  have f: "finish ?out (Some eB) ?h1 =
      Inr (?h1(last ?out := (?h1 (last ?out))\<lparr>include_end := True\<rparr>))"
    using e by (intro finish_closed) simp_all
  from d have "distinct ?out" and "x \<notin> set pa" and "x \<notin> set pb" and "y \<notin> set pa"
    and "y \<notin> set pb" and "y \<noteq> x"
    by auto
  then have v2: "map ?h1 ?out =
      map h pa @ [(h x)\<lparr>tf_end := Some T\<rparr>, (h y)\<lparr>tf_start := Some kB\<rparr>] @ map h pb"
    by (simp add: map_upd_other)
  from \<open>distinct ?out\<close>
  have "map (?h1(last ?out := (?h1 (last ?out))\<lparr>include_end := True\<rparr>)) ?out =
      mark_last (map ?h1 ?out)"
    by (rule map_mark_last) simp
  then have v: "map (?h1(last ?out := (?h1 (last ?out))\<lparr>include_end := True\<rparr>)) ?out =
      mark_last (map h pa @
        [(h x)\<lparr>tf_end := Some T\<rparr>, (h y)\<lparr>tf_start := Some kB\<rparr>] @ map h pb)"
    by (simp only: v2)
  show ?thesis
    unfolding combined_vals_def combined_def
    by (simp only: results.simps l f v sum.case prod.case)
qed

text \<open>
  Claim C3 (adjacency merge), as the code has it. Chunk \<open>A\<close> ends at \<open>T\<close>; its last
  interval \<open>a\<close> starts at \<open>s\<close> and is open-ended. Chunk \<open>B\<close> starts at \<open>kB\<close> with
  \<open>T - max_sample_period \<le> kB \<le> T\<close> (so \<open>B\<close> starts at \<open>T - \<delta>\<close> with
  \<open>0 \<le> \<delta> \<le> max_sample_period\<close>, not at \<open>T + \<delta>\<close>); its first interval \<open>b\<close> is
  open-started and ends at \<open>U\<close>, with \<open>s \<le> U\<close>. The other intervals of the two chunks
  have both bounds. Then \<^verbatim>\<open>combined()\<close> returns the intervals of \<open>A\<close> before \<open>a\<close>, one
  merged interval from \<open>s\<close> to \<open>U\<close> in place of \<open>a\<close> and \<open>b\<close>, and the intervals of \<open>B\<close>
  after \<open>b\<close>, the last of them all with \<^verbatim>\<open>include_end\<close> true.
\<close>

theorem adjacency_merge:
  assumes "tf_start a = Some s" and "tf_end a = None"
    and "tf_start b = None" and "tf_end b = Some U"
    and "T - msp \<le> kB" and "kB \<le> T" and "s \<le> U"
    and "list_all bounded_timeframe ps" and "list_all bounded_timeframe qs"
  shows "combined_vals (build msp [(kA, T, ps @ [a]), (kB, eB, b # qs)]) =
         Inr (mark_last (ps @ [a\<lparr>tf_end := Some U\<rparr>] @ qs))"
proof -
  obtain h where
    b: "build msp [(kA, T, ps @ [a]), (kB, eB, b # qs)] =
       \<lparr>max_sample_period_td = msp,
        data = [\<lparr>c_index = kA, c_end = T, c_sections = [0 ..< length ps] @ [length ps]\<rparr>,
                \<lparr>c_index = kB, c_end = eB,
                 c_sections = Suc (length ps) #
                   [Suc (Suc (length ps)) ..< Suc (Suc (length ps)) + length qs]\<rparr>],
        heap = h, next_ref = Suc (Suc (length ps)) + length qs\<rparr>"
    and h: "map h [0 ..< length ps] = ps" "h (length ps) = a" "h (Suc (length ps)) = b"
      "map h [Suc (Suc (length ps)) ..< Suc (Suc (length ps)) + length qs] = qs"
    by (rule two_chunks)
  from assms(8) h(1) have ba: "list_all (\<lambda>r. bounded_timeframe (h r)) [0 ..< length ps]"
    by (metis (no_types) comp_def list.pred_map list.pred_cong)
  from assms(9) h(4) have bb: "list_all (\<lambda>r. bounded_timeframe (h r))
      [Suc (Suc (length ps)) ..< Suc (Suc (length ps)) + length qs]"
    by (metis (no_types) comp_def list.pred_map list.pred_cong)
  from adjacency_merge_refs [of "[0 ..< length ps]" "length ps" "Suc (length ps)"
      "[Suc (Suc (length ps)) ..< Suc (Suc (length ps)) + length qs]" h s U T msp kB,
      OF two_chunks_distinct _ _ _ _ assms(5,6,7) ba bb] assms(1-4) h
  show ?thesis
    by (simp only: b)
qed

text \<open>
  The scenario of the claim: chunks \<open>[0,10)\<close> with sections \<open>[(2, open)]\<close> and \<open>[10,20)\<close>
  with sections \<open>[(open, 15)]\<close>, a maximum sample period of 1. The result is the single
  interval \<open>(2, 15)\<close> with \<^verbatim>\<open>include_end\<close> true.
\<close>

theorem adjacency_merge_witness:
  "tf_start (tf (Some 2) None) = Some 2 \<and> tf_end (tf (Some 2) None) = None \<and>
   tf_start (tf None (Some 15)) = None \<and> tf_end (tf None (Some 15)) = Some 15 \<and>
   (10::int) - 1 \<le> 10 \<and> (10::int) \<le> 10 \<and> (2::int) \<le> 15 \<and>
   list_all bounded_timeframe [] \<and>
   combined_vals (build 1 [(0, 10, [tf (Some 2) None]), (10, 20, [tf None (Some 15)])]) =
     Inr [\<lparr>tf_start = Some 2, tf_end = Some 15, include_end = True\<rparr>]"
  using adjacency_merge [of "tf (Some 2) None" 2 "tf None (Some 15)" 15 10 1 10 "[]" "[]" 0 20]
  by (simp add: tf_def mark_last_def)

text \<open>
  The claim as it is written fails: with chunk \<open>B\<close> starting at \<open>T + \<delta>\<close> for
  \<open>\<delta> = 1 \<le> max_sample_period = 1\<close>, the call returns two intervals.
\<close>

theorem adjacency_merge_counterexample:
  "(11::int) = 10 + 1 \<and> (1::int) \<le> 1 \<and>
   combined_vals (build 1 [(0, 10, [tf (Some 2) None]), (11, 20, [tf None (Some 15)])]) =
     Inr [\<lparr>tf_start = Some 2, tf_end = Some 10, include_end = False\<rparr>,
          \<lparr>tf_start = Some 11, tf_end = Some 15, include_end = True\<rparr>]"
  by (simp add: build_simps combined_simps)

text \<open>
  Claim C4 (gap non-merge). In the same setup, with chunk \<open>B\<close> starting at \<open>T + \<delta>\<close> and
  \<open>\<delta> > max_sample_period\<close>, \<^verbatim>\<open>combined()\<close> returns \<open>a\<close> and \<open>b\<close> as two intervals:
  \<open>a\<close> closed at \<open>T\<close>, the end of \<open>A\<close>, and \<open>b\<close> opened at \<open>kB\<close>, the key of \<open>B\<close>. The
  intervals lie within their chunks, as the data model has it: \<open>s \<le> T\<close> and \<open>kB \<le> U\<close>.
\<close>

theorem gap_non_merge:
  assumes "tf_start a = Some s" and "tf_end a = None"
    and "tf_start b = None" and "tf_end b = Some U"
    and "kB = T + d" and "msp < d" and "s \<le> T" and "kB \<le> U"
    and "list_all bounded_timeframe ps" and "list_all bounded_timeframe qs"
  shows "combined_vals (build msp [(kA, T, ps @ [a]), (kB, eB, b # qs)]) =
         Inr (mark_last (ps @ [a\<lparr>tf_end := Some T\<rparr>, b\<lparr>tf_start := Some kB\<rparr>] @ qs))"
proof -
  obtain h where
    b: "build msp [(kA, T, ps @ [a]), (kB, eB, b # qs)] =
       \<lparr>max_sample_period_td = msp,
        data = [\<lparr>c_index = kA, c_end = T, c_sections = [0 ..< length ps] @ [length ps]\<rparr>,
                \<lparr>c_index = kB, c_end = eB,
                 c_sections = Suc (length ps) #
                   [Suc (Suc (length ps)) ..< Suc (Suc (length ps)) + length qs]\<rparr>],
        heap = h, next_ref = Suc (Suc (length ps)) + length qs\<rparr>"
    and h: "map h [0 ..< length ps] = ps" "h (length ps) = a" "h (Suc (length ps)) = b"
      "map h [Suc (Suc (length ps)) ..< Suc (Suc (length ps)) + length qs] = qs"
    by (rule two_chunks)
  from assms(5,6) have gap: "\<not> (T - msp \<le> kB \<and> kB \<le> T)"
    by arith
  from assms(9) h(1) have ba: "list_all (\<lambda>r. bounded_timeframe (h r)) [0 ..< length ps]"
    by (metis (no_types) comp_def list.pred_map list.pred_cong)
  from assms(10) h(4) have bb: "list_all (\<lambda>r. bounded_timeframe (h r))
      [Suc (Suc (length ps)) ..< Suc (Suc (length ps)) + length qs]"
    by (metis (no_types) comp_def list.pred_map list.pred_cong)
  from gap_non_merge_refs [of "[0 ..< length ps]" "length ps" "Suc (length ps)"
      "[Suc (Suc (length ps)) ..< Suc (Suc (length ps)) + length qs]" h s U T msp kB,
      OF two_chunks_distinct _ _ _ _ gap assms(7,8) ba bb] assms(1-4) h
  show ?thesis
    by (simp only: b)
qed

text \<open>
  The second scenario of the spec: the same chunks with \<open>B\<close> starting at 12.
\<close>

theorem gap_non_merge_witness:
  "tf_start (tf (Some 2) None) = Some 2 \<and> tf_end (tf (Some 2) None) = None \<and>
   tf_start (tf None (Some 15)) = None \<and> tf_end (tf None (Some 15)) = Some 15 \<and>
   (12::int) = 10 + 2 \<and> (1::int) < 2 \<and> (2::int) \<le> 10 \<and> (12::int) \<le> 15 \<and>
   list_all bounded_timeframe [] \<and>
   combined_vals (build 1 [(0, 10, [tf (Some 2) None]), (12, 20, [tf None (Some 15)])]) =
     Inr [\<lparr>tf_start = Some 2, tf_end = Some 10, include_end = False\<rparr>,
          \<lparr>tf_start = Some 12, tf_end = Some 15, include_end = True\<rparr>]"
  using gap_non_merge [of "tf (Some 2) None" 2 "tf None (Some 15)" 15 12 10 2 1 "[]" "[]" 0 20]
  by (simp add: tf_def mark_last_def)

section \<open>The last interval of the result\<close>

lemma combined_row_prev:
  "combined_row msp st row = Inr (st1, row1) \<Longrightarrow> fst (snd st1) = Some (c_end row)"
  by (auto simp: combined_row_def split: prod.splits sum.splits)

text \<open>After the loop, \<^verbatim>\<open>end_date_of_prev_row\<close> is the \<^verbatim>\<open>end\<close> of the last row.\<close>

lemma combined_loop_prev:
  "combined_loop msp st rows = Inr (st1, rows1) \<Longrightarrow>
   (if rows = [] then st1 = st else fst (snd st1) = Some (c_end (last rows)))"
proof (induction rows arbitrary: st st1 rows1)
  case Nil
  then show ?case by simp
next
  case (Cons row rows)
  from Cons.prems obtain st2 row2 st3 rows3 where
    r: "combined_row msp st row = Inr (st2, row2)" and
    l: "combined_loop msp st2 rows = Inr (st3, rows3)" and
    e: "st1 = st3"
    by (auto split: sum.splits prod.splits)
  from Cons.IH [OF l] combined_row_prev [OF r] e show ?case
    by (auto split: if_splits)
qed

lemma finish_include_end:
  "finish sections prev h = Inr h1 \<Longrightarrow> sections \<noteq> [] \<Longrightarrow>
   include_end (h1 (last sections))"
  by (auto simp: finish_def Let_def set_end_def split: if_splits sum.splits option.splits)

lemma finish_end:
  "finish sections prev h = Inr h1 \<Longrightarrow> sections \<noteq> [] \<Longrightarrow>
   tf_end (h (last sections)) = None \<Longrightarrow> tf_end (h1 (last sections)) = prev"
  by (auto simp: finish_def Let_def set_end_def split: if_splits sum.splits option.splits)

text \<open>
  Claim C5 (final inclusivity). When \<^verbatim>\<open>combined()\<close> returns a non-empty list, its last
  interval has \<^verbatim>\<open>include_end\<close> true; and when the end of that interval was still
  unbounded after the loop (in the store \<open>h\<close> that the loop leaves), it is the \<^verbatim>\<open>end\<close>
  of the last row of \<^verbatim>\<open>_data\<close>.
\<close>

theorem final_inclusivity:
  assumes "combined s = Inr (out, s1)" and "out \<noteq> []"
    and "combined_loop (max_sample_period_td s) ([], None, heap s) (data s) =
           Inr ((sections, prev, h), rows)"
  shows "include_end (heap s1 (last out)) \<and>
         (tf_end (h (last sections)) = None \<longrightarrow>
            data s \<noteq> [] \<and> tf_end (heap s1 (last out)) = Some (c_end (last (data s))))"
proof -
  from assms(1,3) obtain h1 where
    f: "finish sections prev h = Inr h1" and o: "out = sections" and s1: "heap s1 = h1"
    by (auto simp: combined_def split: sum.splits)
  from combined_loop_prev [OF assms(3)] assms(2) o
  have d: "data s \<noteq> []" and p: "prev = Some (c_end (last (data s)))"
    by (auto split: if_splits)
  from finish_include_end [OF f] finish_end [OF f] assms(2) o s1 d p show ?thesis
    by simp
qed

text \<open>One chunk \<open>[0,10)\<close> with the section \<open>(2, open)\<close>: the result is \<open>(2, 10)\<close>, end included.\<close>

theorem final_inclusivity_witness:
  "combined (build 1 [(0, 10, [tf (Some 2) None])]) =
     Inr ([0], \<lparr>max_sample_period_td = 1,
                data = [\<lparr>c_index = 0, c_end = 10, c_sections = [0]\<rparr>],
                heap = (\<lambda>_. unbounded)
                  (0 := \<lparr>tf_start = Some 2, tf_end = Some 10, include_end = True\<rparr>),
                next_ref = 1\<rparr>) \<and>
   [0::nat] \<noteq> [] \<and>
   combined_loop 1 ([], None, (\<lambda>_. unbounded)(0 := tf (Some 2) None))
       [\<lparr>c_index = 0, c_end = 10, c_sections = [0]\<rparr>] =
     Inr (([0], Some 10, (\<lambda>_. unbounded)(0 := tf (Some 2) None)),
          [\<lparr>c_index = 0, c_end = 10, c_sections = [0]\<rparr>]) \<and>
   tf_end (((\<lambda>_. unbounded)(0 := tf (Some 2) None)) (last [0])) = None \<and>
   include_end (((\<lambda>_. unbounded)
      (0 := \<lparr>tf_start = Some 2, tf_end = Some 10, include_end = True\<rparr>)) (last [0])) \<and>
   tf_end (((\<lambda>_. unbounded)
      (0 := \<lparr>tf_start = Some 2, tf_end = Some 10, include_end = True\<rparr>)) (last [0])) =
     Some (c_end (last [\<lparr>c_index = 0, c_end = 10, c_sections = [0]\<rparr>]))"
proof -
  let ?s = "build 1 [(0, 10, [tf (Some 2) None])]"
  let ?h = "(\<lambda>_. unbounded)(0 := tf (Some 2) None)"
  let ?rows = "[\<lparr>c_index = 0, c_end = 10, c_sections = [0]\<rparr>]"
  let ?t = "\<lparr>max_sample_period_td = 1, data = ?rows,
             heap = (\<lambda>_. unbounded)
               (0 := \<lparr>tf_start = Some 2, tf_end = Some 10, include_end = True\<rparr>),
             next_ref = 1\<rparr>"
  have a: "combined ?s = Inr ([0], ?t)"
    by (simp add: build_simps combined_simps)
  have b: "[0::nat] \<noteq> []"
    by simp
  have l: "combined_loop 1 ([], None, ?h) ?rows = Inr (([0], Some 10, ?h), ?rows)"
    by (simp add: combined_simps tf_def)
  have c: "combined_loop (max_sample_period_td ?s) ([], None, heap ?s) (data ?s) =
      Inr (([0], Some 10, ?h), ?rows)"
    using l by (simp add: build_simps)
  from final_inclusivity [OF a b c] a b l show ?thesis
    by (simp add: tf_def)
qed

section \<open>Importing from the cache\<close>

lemma TimeFrame_bounded:
  "TimeFrame (Timestamp k) (Timestamp e) =
     (if e < k then Inl ValueError else Inr (tf (Some k) (Some e)))"
  by (simp add: TimeFrame_def set_start_def set_end_def convert_nat_to_none_def
      unbounded_def tf_def)

lemma new_timeframes_data:
  "new_timeframes s rows = Inr (refs, s1) \<Longrightarrow> data s1 = data s \<and> length refs = length rows"
proof (induction rows arbitrary: s refs s1)
  case Nil
  then show ?case by simp
next
  case (Cons row rows)
  then show ?case
    by (fastforce simp: new_object_def split: sum.splits prod.splits)
qed

text \<open>
  Whatever a group appends is one row with at least one section and with a known boundary.
\<close>

lemma import_group_appends:
  assumes "import_group known s g = Inr s1"
  shows "\<exists>new. data s1 = data s @ new \<and> (\<forall>c\<in>set new. c_sections c \<noteq> [] \<and> accepted known c)"
proof -
  obtain name grp where g: "g = (name, grp)" by (cases g)
  show ?thesis
  proof (cases "s1 = s")
    case True
    then show ?thesis by simp
  next
    case False
    with assms g obtain first others refs s2 where
      grp: "grp = first # others" and
      le: "\<not> row_end first < name" and
      mem: "list_ex (timeframe_eq (tf (Some name) (Some (row_end first)))) known" and
      nt: "new_timeframes s grp = Inr (refs, s2)" and
      s1: "s1 = append s2 name (row_end first) refs"
      by (auto simp: import_group_def TimeFrame_bounded split: list.splits if_splits sum.splits)
    from new_timeframes_data [OF nt] grp have "data s2 = data s" and "refs \<noteq> []"
      by auto
    with s1 mem show ?thesis
      by (simp add: append_def accepted_def)
  qed
qed

lemma import_groups_appends:
  "import_groups known s gs = Inr s1 \<Longrightarrow>
   \<exists>new. data s1 = data s @ new \<and> (\<forall>c\<in>set new. c_sections c \<noteq> [] \<and> accepted known c)"
proof (induction gs arbitrary: s)
  case Nil
  then show ?case by simp
next
  case (Cons g gs)
  from Cons.prems obtain s2 where
    a: "import_group known s g = Inr s2" and b: "import_groups known s2 gs = Inr s1"
    by (auto split: sum.splits)
  from import_group_appends [OF a] obtain n1 where
    n1: "data s2 = data s @ n1" "\<forall>c\<in>set n1. c_sections c \<noteq> [] \<and> accepted known c"
    by blast
  from Cons.IH [OF b] obtain n2 where
    n2: "data s1 = data s2 @ n2" "\<forall>c\<in>set n2. c_sections c \<noteq> [] \<and> accepted known c"
    by blast
  from n1 n2 have "data s1 = data s @ (n1 @ n2)" by simp
  moreover from n1 n2 have "\<forall>c\<in>set (n1 @ n2). c_sections c \<noteq> [] \<and> accepted known c"
    by auto
  ultimately show ?case by blast
qed

text \<open>Grouping a table without the rows of index \<open>k\<close> gives the groups other than \<open>k\<close>'s.\<close>

lemma groupby_level0_filter:
  "groupby_level0 (filter (\<lambda>r. idx r \<noteq> k) t) = filter (\<lambda>g. fst g \<noteq> k) (groupby_level0 t)"
proof -
  have names: "sort (remdups (map idx (filter (\<lambda>r. idx r \<noteq> k) t))) =
               filter (\<lambda>n. n \<noteq> k) (sort (remdups (map idx t)))"
  proof -
    have "map idx (filter (\<lambda>r. idx r \<noteq> k) t) = filter (\<lambda>n. n \<noteq> k) (map idx t)"
      by (simp add: filter_map comp_def)
    then show ?thesis
      by (simp add: filter_sort remdups_filter)
  qed
  have rows: "filter (\<lambda>r. idx r = n) (filter (\<lambda>r. idx r \<noteq> k) t) = filter (\<lambda>r. idx r = n) t"
    if "n \<noteq> k" for n
    using that by (induction t) auto
  have "map (\<lambda>name. (name, filter (\<lambda>r. idx r = name) (filter (\<lambda>r. idx r \<noteq> k) t)))
          (filter (\<lambda>n. n \<noteq> k) (sort (remdups (map idx t)))) =
        map (\<lambda>name. (name, filter (\<lambda>r. idx r = name) t))
          (filter (\<lambda>n. n \<noteq> k) (sort (remdups (map idx t))))"
  proof (rule map_cong)
    fix x assume "x \<in> set (filter (\<lambda>n. n \<noteq> k) (sort (remdups (map idx t))))"
    then have "x \<noteq> k" by simp
    from rows [OF this]
    show "(x, filter (\<lambda>r. idx r = x) (filter (\<lambda>r. idx r \<noteq> k) t)) =
          (x, filter (\<lambda>r. idx r = x) t)"
      by (simp only:)
  qed (rule refl)
  then show ?thesis
    unfolding groupby_level0_def names
    by (simp only: filter_map comp_def fst_conv)
qed

lemma remdups_const: "xs \<noteq> [] \<Longrightarrow> set xs \<subseteq> {e} \<Longrightarrow> remdups xs = [e]"
proof (induction xs)
  case Nil
  then show ?case by simp
next
  case (Cons x xs)
  then have x: "x = e" by simp
  show ?case
  proof (cases "xs = []")
    case True
    with x show ?thesis by simp
  next
    case False
    with Cons have "remdups xs = [e]" by simp
    moreover from False Cons.prems have "e \<in> set xs" by (cases xs) auto
    ultimately show ?thesis using x by simp
  qed
qed

text \<open>A group with one \<^verbatim>\<open>end\<close> and a boundary that is not known leaves the object as it is.\<close>

lemma import_group_stale:
  assumes "\<forall>r\<in>set grp. row_end r = e" and "grp \<noteq> []" and "k \<le> e"
    and "\<not> list_ex (timeframe_eq (tf (Some k) (Some e))) known"
  shows "import_group known s (k, grp) = Inr s"
proof -
  from assms(1,2) have r: "remdups (map row_end grp) = [e]"
    by (intro remdups_const) auto
  from assms(2) obtain first others where g: "grp = first # others"
    by (cases grp) auto
  with assms(1) have f: "row_end first = e" by simp
  have "length (remdups (map row_end (first # others))) = 1"
    using r g by simp
  with f g assms(3,4) show ?thesis
    by (simp add: import_group_def TimeFrame_bounded del: remdups.simps)
qed

lemma import_groups_skip:
  assumes "\<forall>g\<in>set gs. fst g = k \<longrightarrow> (\<forall>s. import_group known s g = Inr s)"
  shows "import_groups known s (filter (\<lambda>g. fst g \<noteq> k) gs) = import_groups known s gs"
  using assms
proof (induction gs arbitrary: s)
  case Nil
  then show ?case by simp
next
  case (Cons g gs)
  then have ih: "\<And>s. import_groups known s (filter (\<lambda>g. fst g \<noteq> k) gs) =
      import_groups known s gs"
    by simp
  show ?case
  proof (cases "fst g = k")
    case True
    with Cons.prems have "import_group known s g = Inr s" by simp
    with True ih show ?thesis by simp
  next
    case False
    with ih show ?thesis by (simp split: sum.splits)
  qed
qed

lemma groupby_level0_group:
  "(n, grp) \<in> set (groupby_level0 t) \<Longrightarrow> grp = filter (\<lambda>r. idx r = n) t \<and> grp \<noteq> []"
  by (auto simp: groupby_level0_def filter_empty_conv)

text \<open>
  Claim C9 (stale-chunk skip). Every row that \<^verbatim>\<open>import_from_cache\<close> appends has its
  boundary among the known chunk boundaries. And a group of the cached table whose
  boundary \<open>(k, e)\<close> is reconstructed (its rows agree on \<open>e\<close>, and \<open>k \<le> e\<close>) and which is
  not among the known boundaries is discarded without error: the call does what it does on
  the table without the rows of that group.
\<close>

theorem stale_chunk_skip:
  "(import_from_cache s cached known = Inr s1 \<longrightarrow>
      (\<exists>new. data s1 = data s @ new \<and>
         (\<forall>c\<in>set new. list_ex (timeframe_eq (tf (Some (c_index c)) (Some (c_end c)))) known))) \<and>
   ((\<forall>r\<in>set cached. idx r = k \<longrightarrow> row_end r = e) \<and> k \<le> e \<and>
      \<not> list_ex (timeframe_eq (tf (Some k) (Some e))) known \<longrightarrow>
    import_from_cache s cached known =
      import_from_cache s (filter (\<lambda>r. idx r \<noteq> k) cached) known)"
proof (intro conjI impI)
  assume "import_from_cache s cached known = Inr s1"
  from import_groups_appends [OF this [unfolded import_from_cache_def]]
  show "\<exists>new. data s1 = data s @ new \<and>
         (\<forall>c\<in>set new. list_ex (timeframe_eq (tf (Some (c_index c)) (Some (c_end c)))) known)"
    by (auto simp: accepted_def)
next
  assume a: "(\<forall>r\<in>set cached. idx r = k \<longrightarrow> row_end r = e) \<and> k \<le> e \<and>
      \<not> list_ex (timeframe_eq (tf (Some k) (Some e))) known"
  have "\<forall>g\<in>set (groupby_level0 cached). fst g = k \<longrightarrow> (\<forall>s. import_group known s g = Inr s)"
  proof (intro ballI impI allI)
    fix g s'
    assume g: "g \<in> set (groupby_level0 cached)" and k: "fst g = k"
    obtain n grp where ng: "g = (n, grp)" by (cases g)
    from groupby_level0_group g ng have grp: "grp = filter (\<lambda>r. idx r = n) cached" "grp \<noteq> []"
      by auto
    with a k ng have "\<forall>r\<in>set grp. row_end r = e" by auto
    from import_group_stale [OF this grp(2)] a k ng show "import_group known s' g = Inr s'"
      by auto
  qed
  from import_groups_skip [OF this]
  show "import_from_cache s cached known =
      import_from_cache s (filter (\<lambda>r. idx r \<noteq> k) cached) known"
    by (simp add: import_from_cache_def groupby_level0_filter)
qed

text \<open>
  A table with the stale group \<open>(0, 10)\<close> and the known group \<open>(20, 30)\<close>: only the second
  is appended, and the call is the call on the table without the first.
\<close>

theorem stale_chunk_skip_witness:
  "import_from_cache (init 1)
     [\<lparr>idx = 0, row_end = 10, section_start = Timestamp 2, section_end = Timestamp 5\<rparr>,
      \<lparr>idx = 20, row_end = 30, section_start = Timestamp 22, section_end = NaT\<rparr>]
     [tf (Some 20) (Some 30)] =
   Inr \<lparr>max_sample_period_td = 1, data = [\<lparr>c_index = 20, c_end = 30, c_sections = [0]\<rparr>],
        heap = (\<lambda>_. unbounded)(0 := tf (Some 22) None), next_ref = 1\<rparr> \<and>
   (\<exists>new. [\<lparr>c_index = 20, c_end = 30, c_sections = [0]\<rparr>] = data (init 1) @ new \<and>
      (\<forall>c\<in>set new. list_ex (timeframe_eq (tf (Some (c_index c)) (Some (c_end c))))
         [tf (Some 20) (Some 30)])) \<and>
   (0::int) \<le> 10 \<and> \<not> list_ex (timeframe_eq (tf (Some 0) (Some 10))) [tf (Some 20) (Some 30)] \<and>
   import_from_cache (init 1)
     [\<lparr>idx = 0, row_end = 10, section_start = Timestamp 2, section_end = Timestamp 5\<rparr>,
      \<lparr>idx = 20, row_end = 30, section_start = Timestamp 22, section_end = NaT\<rparr>]
     [tf (Some 20) (Some 30)] =
   import_from_cache (init 1)
     [\<lparr>idx = 20, row_end = 30, section_start = Timestamp 22, section_end = NaT\<rparr>]
     [tf (Some 20) (Some 30)]"
proof -
  let ?t = "[\<lparr>idx = 0, row_end = 10, section_start = Timestamp 2, section_end = Timestamp 5\<rparr>,
      \<lparr>idx = 20, row_end = 30, section_start = Timestamp 22, section_end = NaT\<rparr>]"
  let ?known = "[tf (Some 20) (Some 30)]"
  let ?u = "\<lparr>max_sample_period_td = 1,
        data = [\<lparr>c_index = 20, c_end = 30, c_sections = [0]\<rparr>],
        heap = (\<lambda>_. unbounded)(0 := tf (Some 22) None), next_ref = 1\<rparr>"
  have a: "import_from_cache (init 1) ?t ?known = Inr ?u"
    by (simp add: import_simps)
  have b: "(\<forall>r\<in>set ?t. idx r = 0 \<longrightarrow> row_end r = 10) \<and> (0::int) \<le> 10 \<and>
      \<not> list_ex (timeframe_eq (tf (Some 0) (Some 10))) ?known"
    by (simp add: timeframe_eq_def tf_def)
  have c: "filter (\<lambda>r. idx r \<noteq> 0) ?t =
      [\<lparr>idx = 20, row_end = 30, section_start = Timestamp 22, section_end = NaT\<rparr>]"
    by simp
  from stale_chunk_skip [of "init 1" ?t ?known ?u 0 10] a b c show ?thesis
    by simp
qed

section \<open>Chunks without sections and the cache\<close>

lemma idx_export_row:
  "r \<in> set (export_row h c) \<Longrightarrow> idx r = c_index c \<and> c_sections c \<noteq> []"
  by (auto simp: export_row_def)

text \<open>
  Claim C10 (a chunk without sections is lost through the cache). For a row \<open>c\<close> of
  \<^verbatim>\<open>_data\<close> with an empty list of sections, \<^verbatim>\<open>export_to_cache\<close> writes no row: the table
  is the table of the accumulator without \<open>c\<close>, and the index of \<open>c\<close> is not in it unless
  another row of \<^verbatim>\<open>_data\<close> with sections has the same index. And no call of
  \<^verbatim>\<open>import_from_cache\<close> on that table appends a row without sections.
\<close>

theorem empty_chunk_lost:
  assumes "data s = pre @ c # post" and "c_sections c = []"
  shows "export_to_cache s = export_to_cache (s\<lparr>data := pre @ post\<rparr>) \<and>
         ((\<forall>c'\<in>set (pre @ post). c_index c' = c_index c \<longrightarrow> c_sections c' = []) \<longrightarrow>
            c_index c \<notin> idx ` set (export_to_cache s)) \<and>
         (\<forall>s0 known s1. import_from_cache s0 (export_to_cache s) known = Inr s1 \<longrightarrow>
            (\<exists>new. data s1 = data s0 @ new \<and> (\<forall>c'\<in>set new. c_sections c' \<noteq> [])))"
proof (intro conjI impI allI)
  from assms have "export_row (heap s) c = []"
    by (simp add: export_row_def)
  with assms(1) show e: "export_to_cache s = export_to_cache (s\<lparr>data := pre @ post\<rparr>)"
    by (simp add: export_to_cache_def)
  assume n: "\<forall>c'\<in>set (pre @ post). c_index c' = c_index c \<longrightarrow> c_sections c' = []"
  show "c_index c \<notin> idx ` set (export_to_cache s)"
  proof
    assume "c_index c \<in> idx ` set (export_to_cache s)"
    then obtain r where "r \<in> set (export_to_cache (s\<lparr>data := pre @ post\<rparr>))"
      and "idx r = c_index c"
      using e by auto
    then obtain c' where "c' \<in> set (pre @ post)" and "r \<in> set (export_row (heap s) c')"
      by (auto simp: export_to_cache_def)
    with idx_export_row [of r "heap s" c'] n \<open>idx r = c_index c\<close> show False
      by auto
  qed
next
  fix s0 known s1
  assume "import_from_cache s0 (export_to_cache s) known = Inr s1"
  from import_groups_appends [OF this [unfolded import_from_cache_def]]
  show "\<exists>new. data s1 = data s0 @ new \<and> (\<forall>c'\<in>set new. c_sections c' \<noteq> [])"
    by blast
qed

text \<open>
  Chunks \<open>[0,10)\<close> with the section \<open>(2, 5)\<close> and \<open>[20,30)\<close> with no section: the table has
  one row, and importing it against both boundaries gives back the first chunk only.
\<close>

theorem empty_chunk_lost_witness:
  "data (build 1 [(0, 10, [tf (Some 2) (Some 5)]), (20, 30, [])]) =
     [\<lparr>c_index = 0, c_end = 10, c_sections = [0]\<rparr>] @
     \<lparr>c_index = 20, c_end = 30, c_sections = []\<rparr> # [] \<and>
   export_to_cache (build 1 [(0, 10, [tf (Some 2) (Some 5)]), (20, 30, [])]) =
     [\<lparr>idx = 0, row_end = 10, section_start = Timestamp 2, section_end = Timestamp 5\<rparr>] \<and>
   20 \<notin> idx ` set (export_to_cache (build 1 [(0, 10, [tf (Some 2) (Some 5)]), (20, 30, [])])) \<and>
   (\<exists>s1. import_from_cache (init 1)
            (export_to_cache (build 1 [(0, 10, [tf (Some 2) (Some 5)]), (20, 30, [])]))
            (chunk_boundaries_of (build 1 [(0, 10, [tf (Some 2) (Some 5)]), (20, 30, [])])) =
            Inr s1 \<and>
         data s1 = [\<lparr>c_index = 0, c_end = 10, c_sections = [0]\<rparr>])"
proof -
  let ?s = "build 1 [(0, 10, [tf (Some 2) (Some 5)]), (20, 30, [])]"
  let ?a = "\<lparr>c_index = 0, c_end = 10, c_sections = [0]\<rparr>"
  let ?c = "\<lparr>c_index = 20, c_end = 30, c_sections = []\<rparr>"
  have d: "data ?s = [?a] @ ?c # []"
    by (simp add: build_simps)
  have e: "c_sections ?c = []"
    by simp
  have x: "export_to_cache (?s\<lparr>data := [?a] @ []\<rparr>) =
      [\<lparr>idx = 0, row_end = 10, section_start = Timestamp 2, section_end = Timestamp 5\<rparr>]"
    by (simp add: build_simps export_simps)
  have i: "import_from_cache (init 1)
      [\<lparr>idx = 0, row_end = 10, section_start = Timestamp 2, section_end = Timestamp 5\<rparr>]
      (chunk_boundaries_of ?s) =
      Inr \<lparr>max_sample_period_td = 1, data = [?a],
        heap = (\<lambda>_. unbounded)(0 := tf (Some 2) (Some 5)), next_ref = 1\<rparr>"
    by (simp add: import_simps chunk_boundaries_of_def build_def append_chunk_def)
  from empty_chunk_lost [OF d e] x i show ?thesis
    using d by simp
qed

section \<open>The cache round trip\<close>

lemma export_row_cong:
  "list_all (\<lambda>r. h r = h' r) (c_sections c) \<Longrightarrow> export_row h c = export_row h' c"
  by (simp add: export_row_def list_all_iff)

lemma export_row_new:
  "export_row h \<lparr>c_index = k, c_end = e, c_sections = refs\<rparr> = cache_rows (k, e, map h refs)"
  by (simp add: export_row_def cache_rows_def comp_def)

lemma export_append_chunk:
  assumes "refs_allocated s"
  shows "export_to_cache (append_chunk s c) = export_to_cache s @ cache_rows c \<and>
         refs_allocated (append_chunk s c)"
proof -
  obtain k e ts where c: "c = (k, e, ts)" by (cases c)
  let ?s1 = "snd (new_objects s ts)" and ?refs = "fst (new_objects s ts)"
  have old: "\<forall>c'\<in>set (data s). export_row (heap ?s1) c' = export_row (heap s) c'"
  proof
    fix c' assume "c' \<in> set (data s)"
    with assms have "list_all (\<lambda>r. r < next_ref s) (c_sections c')"
      by (simp add: refs_allocated_def list_all_iff)
    then have "list_all (\<lambda>r. heap ?s1 r = heap s r) (c_sections c')"
      by (simp add: list_all_iff new_objects_heap_old)
    then show "export_row (heap ?s1) c' = export_row (heap s) c'"
      by (rule export_row_cong)
  qed
  then have "map (export_row (heap ?s1)) (data s) = map (export_row (heap s)) (data s)"
    by (intro map_cong) simp_all
  then have "concat (map (export_row (heap ?s1)) (data s)) =
      concat (map (export_row (heap s)) (data s))"
    by (simp only:)
  then have x: "export_to_cache (append_chunk s c) = export_to_cache s @ cache_rows c"
    by (simp add: c append_chunk_eq append_def export_to_cache_def new_objects_state
        export_row_new new_objects_heap_new)
  have "list_all (\<lambda>c. list_all (\<lambda>r. r < next_ref s + length ts) (c_sections c)) (data s)"
    using assms by (fastforce simp: refs_allocated_def list_all_iff)
  then have "refs_allocated (append_chunk s c)"
    by (simp add: c append_chunk_eq append_def refs_allocated_def new_objects_state
        new_objects_refs list_all_iff)
  with x show ?thesis by simp
qed

lemma export_foldl:
  "refs_allocated s \<Longrightarrow>
   export_to_cache (foldl append_chunk s cs) = export_to_cache s @ concat (map cache_rows cs)"
proof (induction cs arbitrary: s)
  case Nil
  then show ?case by simp
next
  case (Cons c cs)
  from export_append_chunk [OF Cons.prems, of c] Cons.IH [of "append_chunk s c"]
  show ?case by simp
qed

lemma boundaries_append_chunk:
  "chunk_boundaries_of (append_chunk s c) =
     chunk_boundaries_of s @ [tf (Some (fst c)) (Some (fst (snd c)))]"
proof -
  obtain k e ts where c: "c = (k, e, ts)" by (cases c)
  show ?thesis
    by (simp add: c append_chunk_eq append_def chunk_boundaries_of_def new_objects_state)
qed

lemma boundaries_foldl:
  "chunk_boundaries_of (foldl append_chunk s cs) =
     chunk_boundaries_of s @ map (\<lambda>c. tf (Some (fst c)) (Some (fst (snd c)))) cs"
  by (induction cs arbitrary: s) (simp_all add: boundaries_append_chunk)

lemma TimeFrame_fresh:
  assumes "fresh_timeframe t"
  shows "TimeFrame (convert_none_to_nat (tf_start t)) (convert_none_to_nat (tf_end t)) = Inr t"
proof (cases t)
  case (fields a b c)
  with assms show ?thesis
    by (auto simp: fresh_timeframe_def TimeFrame_def convert_none_to_nat_def
        convert_nat_to_none_def set_start_def set_end_def unbounded_def
        split: option.splits)
qed

lemma new_timeframes_fresh:
  "list_all fresh_timeframe ts \<Longrightarrow>
   new_timeframes s (cache_rows (k, e, ts)) = Inr (new_objects s ts)"
proof (induction ts arbitrary: s)
  case Nil
  then show ?case by (simp add: cache_rows_def)
next
  case (Cons t ts)
  let ?s' = "s\<lparr>heap := (heap s)(next_ref s := t), next_ref := Suc (next_ref s)\<rparr>"
  from Cons.prems have f: "fresh_timeframe t" and r: "list_all fresh_timeframe ts"
    by simp_all
  from Cons.IH [OF r, of ?s'] have "new_timeframes ?s' (map (\<lambda>t. \<lparr>idx = k, row_end = e,
                   section_start = convert_none_to_nat (tf_start t),
                   section_end = convert_none_to_nat (tf_end t)\<rparr>) ts) = Inr (new_objects ?s' ts)"
    by (simp add: cache_rows_def)
  with TimeFrame_fresh [OF f] show ?case
    by (simp add: cache_rows_def new_object_def split: prod.splits)
qed


lemma import_group_fresh:
  assumes "fresh_chunk (k, e, ts)"
    and "list_ex (timeframe_eq (tf (Some k) (Some e))) known"
  shows "import_group known s (k, cache_rows (k, e, ts)) = Inr (append_chunk s (k, e, ts))"
proof -
  from assms(1) have le: "k \<le> e" and ne: "ts \<noteq> []" and fr: "list_all fresh_timeframe ts"
    by (simp_all add: fresh_chunk_def)
  from ne obtain first others where g: "cache_rows (k, e, ts) = first # others"
    by (cases ts) (auto simp: cache_rows_def)
  have ends: "set (map row_end (cache_rows (k, e, ts))) \<subseteq> {e}"
    by (auto simp: cache_rows_def)
  with g have f: "row_end first = e"
    by auto
  from ends g have "remdups (map row_end (first # others)) = [e]"
    by (intro remdups_const) simp_all
  then have "length (remdups (map row_end (first # others))) = 1"
    by simp
  moreover from new_timeframes_fresh [OF fr, of s k e] g
  have "new_timeframes s (first # others) = Inr (new_objects s ts)"
    by (simp only:)
  ultimately show ?thesis
    using g f le assms(2)
    by (simp add: import_group_def TimeFrame_bounded append_chunk_eq
        del: remdups.simps new_timeframes.simps split: prod.splits)
qed

lemma import_groups_fresh:
  assumes "list_all fresh_chunk cs"
    and "list_all (\<lambda>c. list_ex (timeframe_eq (tf (Some (fst c)) (Some (fst (snd c))))) known) cs"
  shows "import_groups known s (map (\<lambda>c. (fst c, cache_rows c)) cs) =
         Inr (foldl append_chunk s cs)"
  using assms
proof (induction cs arbitrary: s)
  case Nil
  then show ?case by simp
next
  case (Cons c cs)
  obtain k e ts where c: "c = (k, e, ts)" by (cases c)
  from Cons.prems c have "import_group known s (k, cache_rows (k, e, ts)) =
      Inr (append_chunk s (k, e, ts))"
    by (intro import_group_fresh) simp_all
  with Cons c show ?case
    by simp
qed

lemma idx_cache_rows: "map idx (cache_rows c) = replicate (length (snd (snd c))) (fst c)"
  by (cases c) (simp add: cache_rows_def comp_def map_replicate_const)

lemma filter_cache_rows:
  "filter (\<lambda>r. idx r = n) (cache_rows c) = (if fst c = n then cache_rows c else [])"
  by (cases c) (auto simp: cache_rows_def filter_empty_conv)

lemma idx_in_cache_rows: "r \<in> set (cache_rows c) \<Longrightarrow> idx r = fst c"
  by (cases c) (auto simp: cache_rows_def)

lemma idx_concat_cache_rows:
  assumes "r \<in> set (concat (map cache_rows cs))"
  shows "idx r \<in> fst ` set cs"
proof -
  from assms obtain c where "c \<in> set cs" and "r \<in> set (cache_rows c)"
    by auto
  with idx_in_cache_rows [of r c] show ?thesis
    by simp
qed

lemma no_idx_concat_cache_rows:
  assumes "n \<notin> fst ` set cs"
  shows "n \<notin> idx ` set (concat (map cache_rows cs))"
proof
  assume "n \<in> idx ` set (concat (map cache_rows cs))"
  then obtain r where "r \<in> set (concat (map cache_rows cs))" and "idx r = n"
    by auto
  with idx_concat_cache_rows [of r cs] assms show False
    by simp
qed

lemma remdups_replicate:
  "k \<notin> set rest \<Longrightarrow> 0 < m \<Longrightarrow> remdups (replicate m k @ rest) = k # remdups rest"
proof (induction m)
  case 0
  then show ?case by simp
next
  case (Suc m)
  show ?case
  proof (cases "m = 0")
    case True
    with Suc.prems show ?thesis by simp
  next
    case False
    with Suc have "remdups (replicate m k @ rest) = k # remdups rest"
      by simp
    moreover from False have "k \<in> set (replicate m k @ rest)"
      by simp
    ultimately show ?thesis
      by simp
  qed
qed

lemma names_fresh:
  assumes "distinct (map fst cs)" and "list_all (\<lambda>c. snd (snd c) \<noteq> []) cs"
  shows "remdups (map idx (concat (map cache_rows cs))) = map fst cs"
  using assms
proof (induction cs)
  case Nil
  then show ?case by simp
next
  case (Cons c cs)
  let ?rest = "map idx (concat (map cache_rows cs))"
  from Cons have ih: "remdups ?rest = map fst cs"
    by simp
  from Cons.prems have "fst c \<notin> fst ` set cs"
    by simp
  from no_idx_concat_cache_rows [OF this] have notin: "fst c \<notin> set ?rest"
    by simp
  from Cons.prems have "0 < length (snd (snd c))"
    by simp
  from remdups_replicate [OF notin this] ih show ?case
    by (simp add: idx_cache_rows)
qed

lemma groups_fresh:
  assumes "distinct (map fst cs)" and "c \<in> set cs"
  shows "filter (\<lambda>r. idx r = fst c) (concat (map cache_rows cs)) = cache_rows c"
  using assms
proof (induction cs)
  case Nil
  then show ?case by simp
next
  case (Cons d cs)
  show ?case
  proof (cases "c = d")
    case True
    from Cons.prems have "fst d \<notin> fst ` set cs"
      by simp
    from no_idx_concat_cache_rows [OF this]
    have "\<forall>r\<in>set (concat (map cache_rows cs)). idx r \<noteq> fst d"
      by (fastforce simp: image_iff)
    then have "filter (\<lambda>r. idx r = fst d) (concat (map cache_rows cs)) = []"
      by (simp add: filter_empty_conv)
    with True show ?thesis
      by (simp add: filter_cache_rows)
  next
    case False
    with Cons.prems have c: "c \<in> set cs" and "fst d \<noteq> fst c"
      by auto
    with Cons show ?thesis
      by (simp add: filter_cache_rows)
  qed
qed

lemma groupby_level0_fresh:
  assumes "sorted_wrt (<) (map fst cs)" and "list_all (\<lambda>c. snd (snd c) \<noteq> []) cs"
  shows "groupby_level0 (concat (map cache_rows cs)) = map (\<lambda>c. (fst c, cache_rows c)) cs"
proof -
  from assms(1) have d: "distinct (map fst cs)" and s: "sorted (map fst cs)"
    by (simp_all add: strict_sorted_iff)
  from s have "sort (map fst cs) = map fst cs"
    by (rule sorted_sort_id)
  with names_fresh [OF d assms(2)]
  have "groupby_level0 (concat (map cache_rows cs)) =
      map (\<lambda>c. (fst c, filter (\<lambda>r. idx r = fst c) (concat (map cache_rows cs)))) cs"
    by (simp add: groupby_level0_def comp_def)
  also have "\<dots> = map (\<lambda>c. (fst c, cache_rows c)) cs"
    by (rule map_cong) (simp_all add: groups_fresh [OF d])
  finally show ?thesis .
qed

lemma refs_allocated_init: "refs_allocated (init msp)"
  by (simp add: refs_allocated_def init_def)

lemma export_init: "export_to_cache (init msp) = []"
  by (simp add: export_to_cache_def init_def)

lemma boundaries_init: "chunk_boundaries_of (init msp) = []"
  by (simp add: chunk_boundaries_of_def init_def)

text \<open>
  Claim C1 (cache round trip), as the code has it. For an accumulator built by appending
  chunks in strictly ascending order of their start, each chunk with a boundary whose
  start is not after its end and with at least one interval, each interval as
  \<^verbatim>\<open>TimeFrame(start, end)\<close> constructs it: importing the exported table against the
  accumulator's own chunk boundaries, into a new object with the same maximum sample
  period, gives the accumulator itself, and so the same \<^verbatim>\<open>combined()\<close> output.
\<close>

theorem cache_round_trip:
  assumes "sorted_wrt (<) (map fst cs)" and "list_all fresh_chunk cs"
  shows "import_from_cache (init msp) (export_to_cache (build msp cs))
           (chunk_boundaries_of (build msp cs)) = Inr (build msp cs) \<and>
         (\<exists>acc. import_from_cache (init msp) (export_to_cache (build msp cs))
                   (chunk_boundaries_of (build msp cs)) = Inr acc \<and>
                combined_vals acc = combined_vals (build msp cs))"
proof -
  from assms(2) have ne: "list_all (\<lambda>c. snd (snd c) \<noteq> []) cs"
    by (auto simp: list_all_iff fresh_chunk_def)
  have x: "export_to_cache (build msp cs) = concat (map cache_rows cs)"
    by (simp add: build_def export_foldl refs_allocated_init export_init)
  have b: "chunk_boundaries_of (build msp cs) =
      map (\<lambda>c. tf (Some (fst c)) (Some (fst (snd c)))) cs"
    by (simp add: build_def boundaries_foldl boundaries_init)
  have k: "list_all (\<lambda>c. list_ex (timeframe_eq (tf (Some (fst c)) (Some (fst (snd c)))))
      (chunk_boundaries_of (build msp cs))) cs"
    unfolding b by (auto simp: list_all_iff list_ex_iff timeframe_eq_def)
  from import_groups_fresh [OF assms(2) k, of "init msp", folded build_def]
  have "import_from_cache (init msp) (export_to_cache (build msp cs))
           (chunk_boundaries_of (build msp cs)) = Inr (build msp cs)"
    by (simp add: import_from_cache_def x groupby_level0_fresh [OF assms(1) ne])
  then show ?thesis
    by simp
qed


text \<open>The scenario of the spec: chunks \<open>[0,10)\<close> and \<open>[10,20)\<close> with one section each.\<close>

theorem cache_round_trip_witness:
  "sorted_wrt (<) (map fst [(0::int, 10::int, [tf (Some 2) None]), (10, 20, [tf None (Some 15)])]) \<and>
   list_all fresh_chunk [(0, 10, [tf (Some 2) None]), (10, 20, [tf None (Some 15)])] \<and>
   import_from_cache (init 1)
     (export_to_cache (build 1 [(0, 10, [tf (Some 2) None]), (10, 20, [tf None (Some 15)])]))
     (chunk_boundaries_of (build 1 [(0, 10, [tf (Some 2) None]), (10, 20, [tf None (Some 15)])])) =
     Inr (build 1 [(0, 10, [tf (Some 2) None]), (10, 20, [tf None (Some 15)])]) \<and>
   combined_vals (build 1 [(0, 10, [tf (Some 2) None]), (10, 20, [tf None (Some 15)])]) =
     Inr [\<lparr>tf_start = Some 2, tf_end = Some 15, include_end = True\<rparr>]"
proof -
  let ?cs = "[(0::int, 10::int, [tf (Some 2) None]), (10, 20, [tf None (Some 15)])]"
  have a: "sorted_wrt (<) (map fst ?cs)"
    by simp
  have b: "list_all fresh_chunk ?cs"
    by (simp add: fresh_chunk_def fresh_timeframe_def tf_def)
  have c: "combined_vals (build 1 ?cs) =
      Inr [\<lparr>tf_start = Some 2, tf_end = Some 15, include_end = True\<rparr>]"
    by (simp add: build_simps combined_simps)
  from cache_round_trip [OF a b, of 1] a b c show ?thesis
    by simp
qed

text \<open>
  The claim as it is written fails on an accumulator with a chunk without sections: the
  chunk \<open>[5,6)\<close> is not in the table, so after the round trip the chunks \<open>[0,10)\<close> and
  \<open>[10,20)\<close> are adjacent rows and their sections are merged; in the accumulator itself the
  row between them keeps them apart.
\<close>

theorem cache_round_trip_counterexample:
  "import_from_cache (init 1)
     (export_to_cache
        (build 1 [(0, 10, [tf (Some 2) None]), (5, 6, []), (10, 20, [tf None (Some 15)])]))
     (chunk_boundaries_of
        (build 1 [(0, 10, [tf (Some 2) None]), (5, 6, []), (10, 20, [tf None (Some 15)])])) =
     Inr (build 1 [(0, 10, [tf (Some 2) None]), (10, 20, [tf None (Some 15)])]) \<and>
   combined_vals (build 1 [(0, 10, [tf (Some 2) None]), (10, 20, [tf None (Some 15)])]) =
     Inr [\<lparr>tf_start = Some 2, tf_end = Some 15, include_end = True\<rparr>] \<and>
   combined_vals (build 1 [(0, 10, [tf (Some 2) None]), (5, 6, []), (10, 20, [tf None (Some 15)])]) =
     Inr [\<lparr>tf_start = Some 2, tf_end = Some 10, include_end = False\<rparr>,
          \<lparr>tf_start = Some 10, tf_end = Some 15, include_end = True\<rparr>]"
proof -
  have "import_from_cache (init 1)
     (export_to_cache
        (build 1 [(0, 10, [tf (Some 2) None]), (5, 6, []), (10, 20, [tf None (Some 15)])]))
     (chunk_boundaries_of
        (build 1 [(0, 10, [tf (Some 2) None]), (5, 6, []), (10, 20, [tf None (Some 15)])])) =
     Inr (build 1 [(0, 10, [tf (Some 2) None]), (10, 20, [tf None (Some 15)])])"
    by (simp add: build_def append_chunk_def export_simps chunk_boundaries_of_def import_simps)
  moreover have "combined_vals (build 1 [(0, 10, [tf (Some 2) None]), (10, 20, [tf None (Some 15)])]) =
     Inr [\<lparr>tf_start = Some 2, tf_end = Some 15, include_end = True\<rparr>]"
    by (simp add: build_simps combined_simps)
  moreover have "combined_vals (build 1 [(0, 10, [tf (Some 2) None]), (5, 6, []), (10, 20, [tf None (Some 15)])]) =
     Inr [\<lparr>tf_start = Some 2, tf_end = Some 10, include_end = False\<rparr>,
          \<lparr>tf_start = Some 10, tf_end = Some 15, include_end = True\<rparr>]"
    by (simp add: build_simps combined_simps)
  ultimately show ?thesis
    by (simp only: simp_thms)
qed

section \<open>Calling \<^verbatim>\<open>combined\<close> again\<close>

text \<open>
  Claim C2 (idempotence) fails on the code. On the scenario of the spec, the first call
  returns the merged interval and pops the merged object off the second row's list; the
  second call finds the rows adjacent and reads \<^verbatim>\<open>row_sections[0]\<close> of the emptied list.
\<close>

theorem combined_twice_fails:
  "combined_vals (build 1 [(0, 10, [tf (Some 2) None]), (10, 20, [tf None (Some 15)])]) =
     Inr [\<lparr>tf_start = Some 2, tf_end = Some 15, include_end = True\<rparr>] \<and>
   combined_twice_vals (build 1 [(0, 10, [tf (Some 2) None]), (10, 20, [tf None (Some 15)])]) =
     Inl IndexError"
  by (simp add: build_simps combined_simps combined_twice_vals_def)

text \<open>
  Claim C6 (the records are not changed) fails on the code: \<^verbatim>\<open>row_sections.pop(0)\<close> of
  line 57 removes the first object from the list that the row stores.
\<close>

theorem combined_pops_stored_list:
  "data (build 1 [(0, 10, [tf (Some 2) None]), (10, 20, [tf None (Some 15)])]) =
     [\<lparr>c_index = 0, c_end = 10, c_sections = [0]\<rparr>,
      \<lparr>c_index = 10, c_end = 20, c_sections = [1]\<rparr>] \<and>
   data_after_combined (build 1 [(0, 10, [tf (Some 2) None]), (10, 20, [tf None (Some 15)])]) =
     Inr [\<lparr>c_index = 0, c_end = 10, c_sections = [0]\<rparr>,
          \<lparr>c_index = 10, c_end = 20, c_sections = []\<rparr>]"
  by (simp add: build_simps combined_simps data_after_combined_def)

text \<open>
  Claim C8 (the guard of the boundary test) fails on the code: the condition of line 51
  has no test that \<^verbatim>\<open>row_sections\<close> is non-empty, unlike the one of line 67. A row with no
  sections that is adjacent to the row before it raises \<^verbatim>\<open>IndexError\<close>.
\<close>

theorem empty_adjacent_row_raises:
  "combined (build 1 [(0, 10, []), (10, 20, [])]) = Inl IndexError"
  by (simp add: build_simps combined_simps)

section \<open>Calling \<^verbatim>\<open>unify\<close>\<close>

text \<open>
  Claim C7 (\<^verbatim>\<open>unify\<close> warns and does nothing else) fails on the code: the module never
  imports \<^verbatim>\<open>warn\<close>, so every call raises \<^verbatim>\<open>NameError\<close> before anything else happens.
\<close>

theorem unify_raises_NameError: "unify s other = Inl NameError"
  by (simp add: unify_def lookup_name_def module_names_def builtin_names_def)

end
